theory Spec2Isabelle
  imports Main "HOL-Library.AList"
begin

section \<open>Python values the bot relies on\<close>

text \<open>
  The bot is a single Python class, \<^verbatim>\<open>BirthdayBot\<close> in \<^verbatim>\<open>bot.py\<close>. Exceptions are
  values of \<open>py_error\<close>; a function that may raise returns \<open>py_error + 'a\<close> with
  \<open>Inl\<close> for the exception. Strings are lists of characters with code points below 256.
\<close>

datatype py_error = ValueError | OverflowError | UnknownTimeZoneError | UnboundLocalError | OtherError

subsection \<open>Strings: \<^verbatim>\<open>str.split\<close>, \<^verbatim>\<open>str.join\<close>, \<^verbatim>\<open>int\<close>, \<^verbatim>\<open>str\<close>\<close>

text \<open>\<^verbatim>\<open>s.split(c)\<close> for a one-character separator: every occurrence splits.\<close>

fun split_char :: "char \<Rightarrow> string \<Rightarrow> string list" where
  "split_char c [] = [[]]"
| "split_char c (x # xs) =
     (if x = c then [] # split_char c xs
      else (let r = split_char c xs in (x # hd r) # tl r))"

text \<open>\<^verbatim>\<open>s.split(c, 1)\<close>: only the first occurrence splits.\<close>

fun split_first :: "char \<Rightarrow> string \<Rightarrow> string list" where
  "split_first c [] = [[]]"
| "split_first c (x # xs) =
     (if x = c then [[], xs]
      else (let r = split_first c xs in (x # hd r) # tl r))"

text \<open>\<^verbatim>\<open>c.join(parts)\<close> for a one-character separator.\<close>

fun join_char :: "char \<Rightarrow> string list \<Rightarrow> string" where
  "join_char c [] = []"
| "join_char c [p] = p"
| "join_char c (p # q # ps) = p @ c # join_char c (q # ps)"

text \<open>
  The characters \<^verbatim>\<open>int\<close> drops around a literal, below code point 256: tab, line feed,
  vertical tab, form feed, carriage return, space, NEL and the no-break space.
\<close>

definition int_space :: "char \<Rightarrow> bool" where
  "int_space c = ((of_char c :: nat) \<in> {9, 10, 11, 12, 13, 32, 133, 160})"

definition int_strip :: "string \<Rightarrow> string" where
  "int_strip s = rev (dropWhile int_space (rev (dropWhile int_space s)))"

definition is_digit :: "char \<Rightarrow> bool" where
  "is_digit c = (48 \<le> (of_char c :: nat) \<and> (of_char c :: nat) \<le> 57)"

definition digit_val :: "char \<Rightarrow> int" where
  "digit_val c = int (of_char c) - 48"

text \<open>
  The digits of an integer literal after its first digit: a single underscore may stand
  between two digits.
\<close>

fun parse_digits :: "int \<Rightarrow> string \<Rightarrow> int option" where
  "parse_digits acc [] = Some acc"
| "parse_digits acc (c # cs) =
     (if is_digit c then parse_digits (10 * acc + digit_val c) cs
      else if c = CHR ''_'' then
        (case cs of
           [] \<Rightarrow> None
         | d # ds \<Rightarrow> if is_digit d then parse_digits (10 * acc + digit_val d) ds else None)
      else None)"

definition parse_unsigned :: "string \<Rightarrow> int option" where
  "parse_unsigned s =
     (case s of
        [] \<Rightarrow> None
      | c # cs \<Rightarrow> if is_digit c then parse_digits (digit_val c) cs else None)"

text \<open>
  \<^verbatim>\<open>int(s)\<close> in base 10: surrounding whitespace is dropped, one sign is allowed, and
  anything else raises \<^verbatim>\<open>ValueError\<close>, as does a literal of more than 4300 digits (the
  default of \<^verbatim>\<open>sys.get_int_max_str_digits()\<close>, which the bot does not change).
\<close>

definition py_int :: "string \<Rightarrow> py_error + int" where
  "py_int s =
     (case int_strip s of
        [] \<Rightarrow> Inl ValueError
      | c # cs \<Rightarrow>
          if 4300 < length (filter is_digit cs) + (if is_digit c then 1 else 0)
          then Inl ValueError
          else if c = CHR ''-'' then
            (case parse_unsigned cs of None \<Rightarrow> Inl ValueError | Some n \<Rightarrow> Inr (- n))
          else if c = CHR ''+'' then
            (case parse_unsigned cs of None \<Rightarrow> Inl ValueError | Some n \<Rightarrow> Inr n)
          else
            (case parse_unsigned (c # cs) of None \<Rightarrow> Inl ValueError | Some n \<Rightarrow> Inr n))"

text \<open>\<^verbatim>\<open>str(n)\<close> for an integer.\<close>

fun str_nat :: "nat \<Rightarrow> string" where
  "str_nat n =
     (if n < 10 then [char_of (48 + n)]
      else str_nat (n div 10) @ [char_of (48 + n mod 10)])"

definition py_str :: "int \<Rightarrow> string" where
  "py_str i = (if i < 0 then CHR ''-'' # str_nat (nat (- i)) else str_nat (nat i))"

subsection \<open>The \<^verbatim>\<open>datetime\<close> module\<close>

text \<open>
  A \<^verbatim>\<open>date\<close> is a year, a month and a day; a \<^verbatim>\<open>time\<close> is a time of day; a
  \<^verbatim>\<open>datetime\<close> is both. Years run from 1 to 9999 (\<^verbatim>\<open>MINYEAR\<close>, \<^verbatim>\<open>MAXYEAR\<close>);
  a constructor outside the calendar raises \<^verbatim>\<open>ValueError\<close>, and arithmetic that leaves
  the range raises \<^verbatim>\<open>OverflowError\<close>.
\<close>

record pydate =
  year :: int
  month :: int
  day :: int

record pytime =
  hour :: int
  minute :: int
  second :: int
  microsecond :: int

record pydatetime =
  date_of :: pydate
  time_of :: pytime

definition is_leap :: "int \<Rightarrow> bool" where
  "is_leap y = (y mod 4 = 0 \<and> (y mod 100 \<noteq> 0 \<or> y mod 400 = 0))"

text \<open>The table \<^verbatim>\<open>_DAYS_IN_MONTH\<close> of a common year.\<close>

definition days_in_month_common :: "int \<Rightarrow> int" where
  "days_in_month_common m =
     (if m = 2 then 28 else if m = 4 \<or> m = 6 \<or> m = 9 \<or> m = 11 then 30 else 31)"

definition days_in_month :: "int \<Rightarrow> int \<Rightarrow> int" where
  "days_in_month y m = (if m = 2 \<and> is_leap y then 29 else days_in_month_common m)"

text \<open>The table \<^verbatim>\<open>_DAYS_BEFORE_MONTH\<close> of a common year, for the months 1 to 12.\<close>

definition days_before_month_common :: "int \<Rightarrow> int" where
  "days_before_month_common m =
     (if m = 1 then 0 else if m = 2 then 31 else if m = 3 then 59 else if m = 4 then 90
      else if m = 5 then 120 else if m = 6 then 151 else if m = 7 then 181
      else if m = 8 then 212 else if m = 9 then 243 else if m = 10 then 273
      else if m = 11 then 304 else 334)"

definition days_before_month :: "int \<Rightarrow> int \<Rightarrow> int" where
  "days_before_month y m =
     days_before_month_common m + (if 2 < m \<and> is_leap y then 1 else 0)"

definition days_before_year :: "int \<Rightarrow> int" where
  "days_before_year y = (y - 1) * 365 + (y - 1) div 4 - (y - 1) div 100 + (y - 1) div 400"

definition MAXORDINAL :: int where
  "MAXORDINAL = 3652059"

text \<open>\<^verbatim>\<open>date(y, m, d)\<close>, also what \<^verbatim>\<open>datetime(y, m, d).date()\<close> gives.\<close>

definition mk_date :: "int \<Rightarrow> int \<Rightarrow> int \<Rightarrow> py_error + pydate" where
  "mk_date y m d =
     (if 1 \<le> y \<and> y \<le> 9999 \<and> 1 \<le> m \<and> m \<le> 12 \<and> 1 \<le> d \<and> d \<le> days_in_month y m
      then Inr \<lparr>year = y, month = m, day = d\<rparr>
      else Inl ValueError)"

text \<open>Dates compare as the triples (year, month, day).\<close>

definition date_less :: "pydate \<Rightarrow> pydate \<Rightarrow> bool" where
  "date_less a b =
     (year a < year b \<or> (year a = year b \<and>
        (month a < month b \<or> (month a = month b \<and> day a < day b))))"

definition date_le :: "pydate \<Rightarrow> pydate \<Rightarrow> bool" where
  "date_le a b = (\<not> date_less b a)"

text \<open>\<^verbatim>\<open>date.toordinal()\<close>: 1 January of year 1 is day 1.\<close>

definition toordinal :: "pydate \<Rightarrow> int" where
  "toordinal d = days_before_year (year d) + days_before_month (year d) (month d) + day d"

text \<open>
  \<^verbatim>\<open>date.fromordinal(n)\<close>, as the library's \<^verbatim>\<open>_ord2ymd\<close> computes it: the day
  number is cut into 400-year, 100-year, 4-year and 1-year cycles (\<open>n400\<close>, \<open>n100\<close>,
  \<open>n4\<close>, \<open>n1\<close>) and the day \<open>r\<close> within the year; the month is estimated from \<open>r\<close>
  and corrected when the estimate is one too far.
\<close>

definition ymd_of_cycles :: "int \<Rightarrow> int \<Rightarrow> int \<Rightarrow> int \<Rightarrow> int \<Rightarrow> pydate" where
  "ymd_of_cycles n400 n100 n4 n1 r =
     (let y = n400 * 400 + 1 + n100 * 100 + n4 * 4 + n1
      in if n1 = 4 \<or> n100 = 4 then \<lparr>year = y - 1, month = 12, day = 31\<rparr>
         else
           (let leapyear = (n1 = 3 \<and> (n4 \<noteq> 24 \<or> n100 = 3));
                m0 = (r + 50) div 32;
                p0 = days_before_month_common m0 + (if 2 < m0 \<and> leapyear then 1 else 0)
            in if r < p0
               then \<lparr>year = y, month = m0 - 1,
                     day = r - (p0 - (days_in_month_common (m0 - 1)
                                       + (if m0 - 1 = 2 \<and> leapyear then 1 else 0))) + 1\<rparr>
               else \<lparr>year = y, month = m0, day = r - p0 + 1\<rparr>))"

definition fromordinal :: "int \<Rightarrow> pydate" where
  "fromordinal n =
     (let n0 = n - 1;
          n400 = n0 div 146097; r400 = n0 mod 146097;
          n100 = r400 div 36524; r100 = r400 mod 36524;
          n4 = r100 div 1461; r4 = r100 mod 1461;
          n1 = r4 div 365; r1 = r4 mod 365
      in ymd_of_cycles n400 n100 n4 n1 r1)"

text \<open>
  A duration is a whole number of microseconds; \<^verbatim>\<open>timedelta(...)\<close> raises
  \<^verbatim>\<open>OverflowError\<close> when its day count exceeds 999999999 in magnitude.
\<close>

definition us_per_day :: int where
  "us_per_day = 86400000000"

definition timedelta :: "int \<Rightarrow> py_error + int" where
  "timedelta us =
     (if - 999999999 \<le> us div us_per_day \<and> us div us_per_day \<le> 999999999
      then Inr us else Inl OverflowError)"

definition timedelta_days :: "int \<Rightarrow> py_error + int" where
  "timedelta_days n = timedelta (n * us_per_day)"

definition timedelta_hours :: "int \<Rightarrow> py_error + int" where
  "timedelta_hours n = timedelta (n * 3600000000)"

definition timedelta_minutes :: "int \<Rightarrow> py_error + int" where
  "timedelta_minutes n = timedelta (n * 60000000)"

text \<open>The microseconds of a time of day since midnight.\<close>

definition time_us :: "pytime \<Rightarrow> int" where
  "time_us t = ((hour t * 60 + minute t) * 60 + second t) * 1000000 + microsecond t"

definition time_of_us :: "int \<Rightarrow> pytime" where
  "time_of_us u =
     \<lparr>hour = u div 3600000000, minute = u mod 3600000000 div 60000000,
      second = u mod 60000000 div 1000000, microsecond = u mod 1000000\<rparr>"

text \<open>
  The position of a datetime on its own time line, in microseconds: for an aware UTC
  datetime this is the instant, for a naive one the wall-clock reading.
\<close>

definition timestamp_us :: "pydatetime \<Rightarrow> int" where
  "timestamp_us dt = toordinal (date_of dt) * us_per_day + time_us (time_of dt)"

text \<open>\<^verbatim>\<open>datetime.combine(d, t)\<close>.\<close>

definition combine :: "pydate \<Rightarrow> pytime \<Rightarrow> pydatetime" where
  "combine d t = \<lparr>date_of = d, time_of = t\<rparr>"

text \<open>\<^verbatim>\<open>time(h, m)\<close> for constants of the source, which are in range.\<close>

definition mk_time :: "int \<Rightarrow> int \<Rightarrow> pytime" where
  "mk_time h m = \<lparr>hour = h, minute = m, second = 0, microsecond = 0\<rparr>"

text \<open>\<^verbatim>\<open>d - delta\<close> for a date: only the whole days of the duration count.\<close>

definition date_sub :: "pydate \<Rightarrow> int \<Rightarrow> py_error + pydate" where
  "date_sub d delta =
     (let o' = toordinal d - delta div us_per_day
      in if 0 < o' \<and> o' \<le> MAXORDINAL then Inr (fromordinal o') else Inl OverflowError)"

text \<open>\<^verbatim>\<open>dt - delta\<close> for a datetime.\<close>

definition datetime_sub :: "pydatetime \<Rightarrow> int \<Rightarrow> py_error + pydatetime" where
  "datetime_sub dt delta =
     (let total = timestamp_us dt - delta;
          days = total div us_per_day
      in if 0 < days \<and> days \<le> MAXORDINAL
         then Inr (combine (fromordinal days) (time_of_us (total mod us_per_day)))
         else Inl OverflowError)"

subsection \<open>\<^verbatim>\<open>datetime.strptime\<close> for the two formats the bot uses\<close>

text \<open>
  \<^verbatim>\<open>strptime\<close> turns a format into a regular expression, matches it at the start of
  the string and raises \<^verbatim>\<open>ValueError\<close> when nothing matches or when text remains after
  the match. A directive is a group of alternatives tried in order; each function below
  lists, in that order, the ways its group can match a prefix, as (matched, rest).
\<close>

definition digit_in :: "int \<Rightarrow> int \<Rightarrow> char \<Rightarrow> bool" where
  "digit_in lo hi c = (is_digit c \<and> lo \<le> digit_val c \<and> digit_val c \<le> hi)"

text \<open>\<^verbatim>\<open>%H\<close> is \<^verbatim>\<open>2[0-3]|[0-1]\d|\d\<close>.\<close>

definition re_H :: "string \<Rightarrow> (string \<times> string) list" where
  "re_H s =
     (case s of
        a # b # r \<Rightarrow>
          (if a = CHR ''2'' \<and> digit_in 0 3 b then [([a, b], r)] else []) @
          (if digit_in 0 1 a \<and> is_digit b then [([a, b], r)] else [])
      | _ \<Rightarrow> []) @
     (case s of a # r \<Rightarrow> if is_digit a then [([a], r)] else [] | [] \<Rightarrow> [])"

text \<open>\<^verbatim>\<open>%M\<close> is \<^verbatim>\<open>[0-5]\d|\d\<close>.\<close>

definition re_M :: "string \<Rightarrow> (string \<times> string) list" where
  "re_M s =
     (case s of
        a # b # r \<Rightarrow> if digit_in 0 5 a \<and> is_digit b then [([a, b], r)] else []
      | _ \<Rightarrow> []) @
     (case s of a # r \<Rightarrow> if is_digit a then [([a], r)] else [] | [] \<Rightarrow> [])"

text \<open>\<^verbatim>\<open>%m\<close> is \<^verbatim>\<open>1[0-2]|0[1-9]|[1-9]\<close>.\<close>

definition re_m :: "string \<Rightarrow> (string \<times> string) list" where
  "re_m s =
     (case s of
        a # b # r \<Rightarrow>
          (if a = CHR ''1'' \<and> digit_in 0 2 b then [([a, b], r)] else []) @
          (if a = CHR ''0'' \<and> digit_in 1 9 b then [([a, b], r)] else [])
      | _ \<Rightarrow> []) @
     (case s of a # r \<Rightarrow> if digit_in 1 9 a then [([a], r)] else [] | [] \<Rightarrow> [])"

text \<open>\<^verbatim>\<open>%d\<close> is \<^verbatim>\<open>3[0-1]|[1-2]\d|0[1-9]|[1-9]| [1-9]\<close>.\<close>

definition re_d :: "string \<Rightarrow> (string \<times> string) list" where
  "re_d s =
     (case s of
        a # b # r \<Rightarrow>
          (if a = CHR ''3'' \<and> digit_in 0 1 b then [([a, b], r)] else []) @
          (if digit_in 1 2 a \<and> is_digit b then [([a, b], r)] else []) @
          (if a = CHR ''0'' \<and> digit_in 1 9 b then [([a, b], r)] else [])
      | _ \<Rightarrow> []) @
     (case s of a # r \<Rightarrow> if digit_in 1 9 a then [([a], r)] else [] | [] \<Rightarrow> []) @
     (case s of
        a # b # r \<Rightarrow> if a = CHR '' '' \<and> digit_in 1 9 b then [([a, b], r)] else []
      | _ \<Rightarrow> [])"

text \<open>A literal character of the format.\<close>

definition re_lit :: "char \<Rightarrow> string \<Rightarrow> string list" where
  "re_lit c s = (case s of x # r \<Rightarrow> if x = c then [r] else [] | [] \<Rightarrow> [])"

text \<open>
  \<^verbatim>\<open>datetime.strptime(s, '%H:%M').time()\<close>: the first way the whole expression matches
  decides; text after it is an error.
\<close>

definition strptime_HM :: "string \<Rightarrow> py_error + pytime" where
  "strptime_HM s =
     (case [(h, m, r2). (h, r) \<leftarrow> re_H s, r1 \<leftarrow> re_lit CHR '':'' r, (m, r2) \<leftarrow> re_M r1] of
        [] \<Rightarrow> Inl ValueError
      | (h, m, r2) # _ \<Rightarrow>
          if r2 \<noteq> [] then Inl ValueError
          else (case py_int h of
                  Inl e \<Rightarrow> Inl e
                | Inr hv \<Rightarrow> (case py_int m of Inl e \<Rightarrow> Inl e | Inr mv \<Rightarrow> Inr (mk_time hv mv))))"

text \<open>
  \<^verbatim>\<open>datetime.strptime(s, '%m-%d')\<close>, reduced to the month and the day it found. With no
  year in the format the library computes the day of the year in 1900, or in the leap
  year 1904 when the date is 29 February, and then builds the datetime in 1900, where
  29 February does not exist.
\<close>

definition strptime_md :: "string \<Rightarrow> py_error + int \<times> int" where
  "strptime_md s =
     (case [(m, d, r2). (m, r) \<leftarrow> re_m s, r1 \<leftarrow> re_lit CHR ''-'' r, (d, r2) \<leftarrow> re_d r1] of
        [] \<Rightarrow> Inl ValueError
      | (m, d, r2) # _ \<Rightarrow>
          if r2 \<noteq> [] then Inl ValueError
          else (case py_int m of
                  Inl e \<Rightarrow> Inl e
                | Inr mv \<Rightarrow>
                    (case py_int d of
                       Inl e \<Rightarrow> Inl e
                     | Inr dv \<Rightarrow>
                         (case mk_date (if mv = 2 \<and> dv = 29 then 1904 else 1900) mv dv of
                            Inl e \<Rightarrow> Inl e
                          | Inr _ \<Rightarrow>
                              (case mk_date 1900 mv dv of
                                 Inl e \<Rightarrow> Inl e
                               | Inr _ \<Rightarrow> Inr (mv, dv))))))"

subsection \<open>Time zones\<close>

text \<open>
  The \<^verbatim>\<open>pytz\<close> database is not part of the bot. A zone is taken as the UTC offset, in
  seconds, that \<^verbatim>\<open>tz.localize\<close> gives to a naive wall-clock reading (the reading in
  microseconds, as \<open>timestamp_us\<close> counts them); the database maps a zone name to its
  zone, and an unknown name raises \<^verbatim>\<open>UnknownTimeZoneError\<close>.
\<close>

type_synonym tzinfo = "int \<Rightarrow> int"

type_synonym tzdb = "string \<Rightarrow> tzinfo option"

text \<open>\<^verbatim>\<open>tz.localize(dt)\<close>: the wall-clock reading with its offset.\<close>

definition localize :: "tzinfo \<Rightarrow> pydatetime \<Rightarrow> pydatetime \<times> int" where
  "localize tz dt = (dt, tz (timestamp_us dt))"

text \<open>\<^verbatim>\<open>aware.astimezone(pytz.UTC)\<close>: the offset is subtracted.\<close>

definition astimezone_utc :: "pydatetime \<times> int \<Rightarrow> py_error + pydatetime" where
  "astimezone_utc aware = datetime_sub (fst aware) (snd aware * 1000000)"

section \<open>The bot\<close>

subsection \<open>Subscribers and the bot's state\<close>

text \<open>
  A reminder is the dictionary \<^verbatim>\<open>{'type': ..., 'value': ...}\<close>. A subscriber's record has
  the four keys \<^verbatim>\<open>get_user_data\<close> creates. Python dictionaries keep insertion order, so
  \<^verbatim>\<open>birthdays\<close>, \<^verbatim>\<open>users_data\<close> and \<^verbatim>\<open>pending_endpoints\<close> are association lists:
  assigning to a key updates it in place or appends it, and \<^verbatim>\<open>del\<close> removes it.
  \<^verbatim>\<open>save_data\<close> writes the file and leaves the state in memory as it is; the file is
  not modelled.
\<close>

record reminder =
  r_type :: string
  r_value :: string

record user_data =
  birthdays :: "(string \<times> string) list"
  apprise_endpoints :: "string list"
  reminders :: "reminder list"
  timezone :: string

record bot =
  token :: string
  users_data :: "(string \<times> user_data) list"
  pending_endpoints :: "(string \<times> string) list"

definition new_user_data :: user_data where
  "new_user_data = \<lparr>birthdays = [], apprise_endpoints = [], reminders = [], timezone = ''UTC''\<rparr>"

text \<open>\<^verbatim>\<open>get_user_data\<close>: the subscriber's record, created when absent.\<close>

definition get_user_data :: "bot \<Rightarrow> string \<Rightarrow> user_data \<times> bot" where
  "get_user_data st user_id =
     (case map_of (users_data st) user_id of
        Some u \<Rightarrow> (u, st)
      | None \<Rightarrow>
          (new_user_data, st\<lparr>users_data := AList.update user_id new_user_data (users_data st)\<rparr>))"

text \<open>A write through the reference \<^verbatim>\<open>get_user_data\<close> returned.\<close>

definition put_user_data :: "bot \<Rightarrow> string \<Rightarrow> user_data \<Rightarrow> bot" where
  "put_user_data st user_id u = st\<lparr>users_data := AList.update user_id u (users_data st)\<rparr>"

subsection \<open>The collaborators outside the bot\<close>

text \<open>
  Apprise is outside the bot: \<^verbatim>\<open>apobj.add(url)\<close> says whether it accepts an endpoint, and
  \<^verbatim>\<open>apobj.notify(body, title)\<close> on the endpoints it accepted returns a truth value or
  raises an exception. Titles and bodies are kept as what they say, not as rendered text.
\<close>

datatype title = BirthdayReminderTitle string | TestNotificationTitle | EndpointTestTitle

datatype body = BirthdayComingUp string string | BirthdayToday string | TestMessage
  | EndpointTestMessage

datatype notify_outcome = Returns bool | Raises py_error

record env =
  tzdb_of :: tzdb
  apprise_add :: "string \<Rightarrow> bool"
  apprise_notify :: "string list \<Rightarrow> title \<Rightarrow> body \<Rightarrow> notify_outcome"

subsection \<open>Reminders: \<^verbatim>\<open>validate_reminder\<close> and \<^verbatim>\<open>add_reminder\<close>\<close>

definition validate_reminder :: "reminder \<Rightarrow> py_error + unit" where
  "validate_reminder rm =
     (let reminder_type = r_type rm; v = r_value rm
      in if reminder_type \<in> set [''minutes_before'', ''hours_before'', ''days_before''] then
           (case py_int v of Inl e \<Rightarrow> Inl e | Inr _ \<Rightarrow> Inr ())
         else if reminder_type = ''time_on_day'' then
           (case strptime_HM v of Inl e \<Rightarrow> Inl e | Inr _ \<Rightarrow> Inr ())
         else if reminder_type = ''time_before'' then
           (let parts = split_char CHR '':'' v
            in if length parts \<noteq> 3 then Inl ValueError
               else (case py_int (parts ! 0) of
                       Inl e \<Rightarrow> Inl e
                     | Inr _ \<Rightarrow>
                         (case strptime_HM (parts ! 1 @ CHR '':'' # parts ! 2) of
                            Inl e \<Rightarrow> Inl e
                          | Inr _ \<Rightarrow> Inr ())))
         else Inl ValueError)"

datatype reply =
    Usage
  | BirthdayAdded string string
  | InvalidDateFormat
  | BirthdayRemoved string
  | NoBirthdayFound string
  | ReminderAdded string string
  | InvalidReminderFormat
  | InvalidEndpointFormat
  | TestNotificationFailed
  | ErrorTestingEndpoint py_error
  | ConfirmationRequested string
  | RemovedEndpoint string
  | InvalidEndpointSelection
  | EndpointAdded string nat
  | NoPendingToConfirm
  | EndpointNotAdded string
  | NoPendingToCancel
  | NoReply

text \<open>
  \<^verbatim>\<open>add_reminder\<close> with the command's arguments. Only \<^verbatim>\<open>ValueError\<close> is caught; any
  other exception would leave the handler.
\<close>

definition add_reminder :: "bot \<Rightarrow> string \<Rightarrow> string list \<Rightarrow> py_error + bot \<times> reply" where
  "add_reminder st user_id args =
     (if length args < 2 then Inr (st, Usage)
      else
        (let (u, st1) = get_user_data st user_id;
             rm = \<lparr>r_type = args ! 0, r_value = args ! 1\<rparr>
         in case validate_reminder rm of
              Inr _ \<Rightarrow>
                Inr (put_user_data st1 user_id (u\<lparr>reminders := reminders u @ [rm]\<rparr>),
                     ReminderAdded (args ! 0) (args ! 1))
            | Inl e \<Rightarrow> if e = ValueError then Inr (st1, InvalidReminderFormat) else Inl e))"

subsection \<open>Birthdays: \<^verbatim>\<open>add_birthday\<close> and \<^verbatim>\<open>remove_birthday\<close>\<close>

text \<open>
  \<^verbatim>\<open>add_birthday\<close> with the command's arguments: the date is stored under the name
  when \<^verbatim>\<open>strptime\<close> accepts it, and \<^verbatim>\<open>ValueError\<close> is answered with a reply.
\<close>

definition add_birthday :: "bot \<Rightarrow> string \<Rightarrow> string list \<Rightarrow> py_error + bot \<times> reply" where
  "add_birthday st user_id args =
     (if length args < 2 then Inr (st, Usage)
      else
        (let (u, st1) = get_user_data st user_id;
             name = args ! 0;
             date_str = args ! 1
         in case strptime_md date_str of
              Inr _ \<Rightarrow>
                Inr (put_user_data st1 user_id
                       (u\<lparr>birthdays := AList.update name date_str (birthdays u)\<rparr>),
                     BirthdayAdded name date_str)
            | Inl e \<Rightarrow> if e = ValueError then Inr (st1, InvalidDateFormat) else Inl e))"


subsection \<open>TimeRules: \<^verbatim>\<open>get_next_birthday_date\<close> and \<^verbatim>\<open>calculate_reminder_time\<close>\<close>

text \<open>
  \<^verbatim>\<open>get_next_birthday_date\<close> reads the clock twice (\<^verbatim>\<open>datetime.now()\<close>, naive local
  time); \<open>now\<close> is that reading, the same both times. Unpacking
  \<^verbatim>\<open>map(int, birthday_str.split('-'))\<close> into two names raises \<^verbatim>\<open>ValueError\<close> unless
  there are exactly two parts and both are integers.
\<close>

definition get_next_birthday_date :: "pydatetime \<Rightarrow> string \<Rightarrow> py_error + pydate" where
  "get_next_birthday_date now birthday_str =
     (let current_year = year (date_of now)
      in case map py_int (split_char CHR ''-'' birthday_str) of
           [Inr m, Inr d] \<Rightarrow>
             (case mk_date current_year m d of
                Inl e \<Rightarrow> Inl e
              | Inr next_birthday \<Rightarrow>
                  if date_less next_birthday (date_of now)
                  then mk_date (current_year + 1) m d
                  else Inr next_birthday)
         | _ \<Rightarrow> Inl ValueError)"

text \<open>
  The naive local datetime \<^verbatim>\<open>calculate_reminder_time\<close> builds before it localizes it.
  A type none of the branches knows leaves \<^verbatim>\<open>reminder_datetime\<close> unassigned.
\<close>

definition reminder_datetime :: "pydate \<Rightarrow> reminder \<Rightarrow> py_error + pydatetime" where
  "reminder_datetime birthday_date rm =
     (let reminder_type = r_type rm; v = r_value rm
      in if reminder_type = ''minutes_before'' then
           (case py_int v of
              Inl e \<Rightarrow> Inl e
            | Inr n \<Rightarrow>
                (case timedelta_minutes n of
                   Inl e \<Rightarrow> Inl e
                 | Inr delta \<Rightarrow> datetime_sub (combine birthday_date (mk_time 0 0)) delta))
         else if reminder_type = ''hours_before'' then
           (case py_int v of
              Inl e \<Rightarrow> Inl e
            | Inr n \<Rightarrow>
                (case timedelta_hours n of
                   Inl e \<Rightarrow> Inl e
                 | Inr delta \<Rightarrow> datetime_sub (combine birthday_date (mk_time 0 0)) delta))
         else if reminder_type = ''days_before'' then
           (case py_int v of
              Inl e \<Rightarrow> Inl e
            | Inr n \<Rightarrow>
                (case timedelta_days n of
                   Inl e \<Rightarrow> Inl e
                 | Inr delta \<Rightarrow>
                     (case date_sub birthday_date delta of
                        Inl e \<Rightarrow> Inl e
                      | Inr target_date \<Rightarrow> Inr (combine target_date (mk_time 9 0)))))
         else if reminder_type = ''time_on_day'' then
           (case strptime_HM v of
              Inl e \<Rightarrow> Inl e
            | Inr reminder_time \<Rightarrow> Inr (combine birthday_date reminder_time))
         else if reminder_type = ''time_before'' then
           (case split_first CHR '':'' v of
              [days, time_str] \<Rightarrow>
                (case strptime_HM time_str of
                   Inl e \<Rightarrow> Inl e
                 | Inr reminder_time \<Rightarrow>
                     (case py_int days of
                        Inl e \<Rightarrow> Inl e
                      | Inr n \<Rightarrow>
                          (case timedelta_days n of
                             Inl e \<Rightarrow> Inl e
                           | Inr delta \<Rightarrow>
                               (case date_sub birthday_date delta of
                                  Inl e \<Rightarrow> Inl e
                                | Inr target_date \<Rightarrow>
                                    Inr (combine target_date reminder_time)))))
            | _ \<Rightarrow> Inl ValueError)
         else Inl UnboundLocalError)"

definition calculate_reminder_time ::
  "tzdb \<Rightarrow> pydate \<Rightarrow> reminder \<Rightarrow> string \<Rightarrow> py_error + pydatetime" where
  "calculate_reminder_time db birthday_date rm timezone_str =
     (case db timezone_str of
        None \<Rightarrow> Inl UnknownTimeZoneError
      | Some tz \<Rightarrow>
          (case reminder_datetime birthday_date rm of
             Inl e \<Rightarrow> Inl e
           | Inr naive \<Rightarrow> astimezone_utc (localize tz naive)))"

subsection \<open>NotificationDispatcher: \<^verbatim>\<open>send_notification\<close>\<close>

text \<open>
  The result is the returned count, the endpoint lists handed to \<^verbatim>\<open>notify\<close> (none when
  no delivery was attempted) and the state, which \<^verbatim>\<open>get_user_data\<close> may have extended.
  Every exception of \<^verbatim>\<open>notify\<close> is caught by \<^verbatim>\<open>except Exception\<close>.
\<close>

definition send_notification ::
  "env \<Rightarrow> bot \<Rightarrow> string \<Rightarrow> title \<Rightarrow> body \<Rightarrow> (py_error + int) \<times> string list list \<times> bot" where
  "send_notification ev st user_id ttl message =
     (let (u, st1) = get_user_data st user_id
      in if apprise_endpoints u = [] then (Inr 0, [], st1)
         else
           (let loaded = filter (apprise_add ev) (apprise_endpoints u)
            in case apprise_notify ev loaded ttl message of
                 Returns success \<Rightarrow>
                   (Inr (if success then int (length (apprise_endpoints u)) else 0), [loaded], st1)
               | Raises e \<Rightarrow> (Inr 0, [loaded], st1)))"

subsection \<open>ReminderScheduler: \<^verbatim>\<open>check_birthdays\<close>\<close>

text \<open>
  The firing test of \<^verbatim>\<open>check_birthdays\<close>:
  \<^verbatim>\<open>abs((current_time - reminder_time).total_seconds()) <= 60\<close>. Both datetimes are aware
  and in UTC; the difference is a whole number of microseconds, and dividing it by a
  million and comparing with 60 is the same as comparing it with sixty million.
\<close>

definition is_due :: "pydatetime \<Rightarrow> pydatetime \<Rightarrow> bool" where
  "is_due current_time reminder_time =
     (\<bar>timestamp_us current_time - timestamp_us reminder_time\<bar> \<le> 60000000)"

text \<open>What a tick does that can be seen from outside: notifications and logged errors.\<close>

datatype event =
    Sent string title body "string list list" int
  | LoggedError string py_error

text \<open>The loop over one birthday's reminders; its body is the \<^verbatim>\<open>try\<close> block.\<close>

fun check_reminders ::
  "env \<Rightarrow> pydatetime \<Rightarrow> string \<Rightarrow> string \<Rightarrow> string \<Rightarrow> pydate \<Rightarrow> string \<Rightarrow>
   reminder list \<Rightarrow> bot \<Rightarrow> event list \<times> bot" where
  "check_reminders ev current_time user_id name birthday_str next_birthday timezone_str [] st =
     ([], st)"
| "check_reminders ev current_time user_id name birthday_str next_birthday timezone_str
     (rm # rms) st =
     (let (evs1, st1) =
            (case calculate_reminder_time (tzdb_of ev) next_birthday rm timezone_str of
               Inl e \<Rightarrow> ([LoggedError name e], st)
             | Inr reminder_time \<Rightarrow>
                 if is_due current_time reminder_time then
                   (let message =
                          (if r_type rm = ''time_on_day'' then BirthdayToday name
                           else BirthdayComingUp name birthday_str);
                        (res, calls, st') =
                          send_notification ev st user_id (BirthdayReminderTitle name) message
                    in case res of
                         Inl e \<Rightarrow> ([LoggedError name e], st')
                       | Inr n \<Rightarrow>
                           ([Sent user_id (BirthdayReminderTitle name) message calls n], st'))
                 else ([], st));
          (evs2, st2) =
            check_reminders ev current_time user_id name birthday_str next_birthday
              timezone_str rms st1
      in (evs1 @ evs2, st2))"

text \<open>
  The loop over one subscriber's birthdays. \<^verbatim>\<open>get_next_birthday_date\<close> is called before
  the \<^verbatim>\<open>try\<close> block: its exception leaves \<^verbatim>\<open>check_birthdays\<close>. The third component is
  that exception, if any.
\<close>

fun check_user_birthdays ::
  "env \<Rightarrow> pydatetime \<Rightarrow> pydatetime \<Rightarrow> string \<Rightarrow> string \<Rightarrow> reminder list \<Rightarrow>
   (string \<times> string) list \<Rightarrow> bot \<Rightarrow> event list \<times> bot \<times> py_error option" where
  "check_user_birthdays ev now current_time user_id timezone_str rms [] st = ([], st, None)"
| "check_user_birthdays ev now current_time user_id timezone_str rms
     ((name, birthday_str) # bs) st =
     (case get_next_birthday_date now birthday_str of
        Inl e \<Rightarrow> ([], st, Some e)
      | Inr next_birthday \<Rightarrow>
          (let (evs1, st1) =
                 check_reminders ev current_time user_id name birthday_str next_birthday
                   timezone_str rms st;
               (evs2, st2, err) =
                 check_user_birthdays ev now current_time user_id timezone_str rms bs st1
           in (evs1 @ evs2, st2, err)))"

text \<open>The loop over the subscribers.\<close>

fun check_users ::
  "env \<Rightarrow> pydatetime \<Rightarrow> pydatetime \<Rightarrow> (string \<times> user_data) list \<Rightarrow> bot \<Rightarrow>
   event list \<times> bot \<times> py_error option" where
  "check_users ev now current_time [] st = ([], st, None)"
| "check_users ev now current_time ((user_id, u) # us) st =
     (if birthdays u = [] \<or> reminders u = [] then check_users ev now current_time us st
      else
        (case check_user_birthdays ev now current_time user_id (timezone u) (reminders u)
                (birthdays u) st of
           (evs1, st1, Some e) \<Rightarrow> (evs1, st1, Some e)
         | (evs1, st1, None) \<Rightarrow>
             (let (evs2, st2, err) = check_users ev now current_time us st1
              in (evs1 @ evs2, st2, err))))"

text \<open>
  One tick. \<open>now\<close> is the naive local clock \<^verbatim>\<open>get_next_birthday_date\<close> reads and
  \<open>current_time\<close> the UTC clock read once at the start of the tick.
\<close>

definition check_birthdays ::
  "env \<Rightarrow> pydatetime \<Rightarrow> pydatetime \<Rightarrow> bot \<Rightarrow> event list \<times> bot \<times> py_error option" where
  "check_birthdays ev now current_time st =
     check_users ev now current_time (users_data st) st"

subsection \<open>EndpointConfirmationFlow: \<^verbatim>\<open>add_endpoint\<close> and \<^verbatim>\<open>handle_callback\<close>\<close>

definition py_startswith :: "string \<Rightarrow> string \<Rightarrow> bool" where
  "py_startswith p s = (take (length p) s = p)"

text \<open>Propose: the candidate is tried once and, when the trial succeeds, kept as pending.\<close>

definition add_endpoint :: "env \<Rightarrow> bot \<Rightarrow> string \<Rightarrow> string list \<Rightarrow> bot \<times> reply" where
  "add_endpoint ev st user_id args =
     (if length args < 1 then (st, Usage)
      else
        (let (u, st1) = get_user_data st user_id;
             endpoint = join_char CHR '' '' args
         in if \<not> apprise_add ev endpoint then (st1, InvalidEndpointFormat)
            else
              (case apprise_notify ev [endpoint] EndpointTestTitle EndpointTestMessage of
                 Returns success \<Rightarrow>
                   if \<not> success then (st1, TestNotificationFailed)
                   else
                     (st1\<lparr>pending_endpoints :=
                            AList.update user_id endpoint (pending_endpoints st1)\<rparr>,
                      ConfirmationRequested endpoint)
               | Raises e \<Rightarrow> (st1, ErrorTestingEndpoint e))))"

text \<open>The chat-relay endpoint \<^verbatim>\<open>f"tgram://{self.token}/{query.message.chat.id}"\<close>.\<close>

definition telegram_endpoint :: "bot \<Rightarrow> int \<Rightarrow> string" where
  "telegram_endpoint st chat_id = ''tgram://'' @ token st @ ''/'' @ py_str chat_id"

definition handle_callback :: "bot \<Rightarrow> string \<Rightarrow> int \<Rightarrow> string \<Rightarrow> py_error + bot \<times> reply" where
  "handle_callback st user_id chat_id data =
     (if py_startswith ''remove_endpoint_'' data then
        (case py_int (last (split_char CHR ''_'' data)) of
           Inl e \<Rightarrow> Inl e
         | Inr index \<Rightarrow>
             (let (u, st1) = get_user_data st user_id
              in if 0 \<le> index \<and> index < int (length (apprise_endpoints u)) then
                   Inr (put_user_data st1 user_id
                          (u\<lparr>apprise_endpoints :=
                               take (nat index) (apprise_endpoints u) @
                               drop (Suc (nat index)) (apprise_endpoints u)\<rparr>),
                        RemovedEndpoint (apprise_endpoints u ! nat index))
                 else Inr (st1, InvalidEndpointSelection)))
      else if data = ''confirm_endpoint_yes'' then
        (case map_of (pending_endpoints st) user_id of
           Some endpoint \<Rightarrow>
             (let (u, st1) = get_user_data st user_id;
                  eps1 = apprise_endpoints u @ [endpoint];
                  tg = telegram_endpoint st chat_id;
                  eps2 = (if tg \<notin> set eps1 then eps1 @ [tg] else eps1);
                  st2 = put_user_data st1 user_id (u\<lparr>apprise_endpoints := eps2\<rparr>)
              in Inr (st2\<lparr>pending_endpoints := AList.delete user_id (pending_endpoints st2)\<rparr>,
                      EndpointAdded endpoint (length eps2)))
         | None \<Rightarrow> Inr (st, NoPendingToConfirm))
      else if data = ''confirm_endpoint_no'' then
        (case map_of (pending_endpoints st) user_id of
           Some endpoint \<Rightarrow>
             Inr (st\<lparr>pending_endpoints := AList.delete user_id (pending_endpoints st)\<rparr>,
                  EndpointNotAdded endpoint)
         | None \<Rightarrow> Inr (st, NoPendingToCancel))
      else Inr (st, NoReply))"

section \<open>What the specification says, for comparison with the code\<close>

text \<open>
  The specification's reminder rule is a tagged variant. Its wire format is an integer for
  the three count rules, \<^verbatim>\<open>HH:MM\<close> for TimeOnDay and \<^verbatim>\<open>D:HH:MM\<close> for TimeBefore; an
  integer is read as \<^verbatim>\<open>int\<close> reads it and a time as \<^verbatim>\<open>%H:%M\<close> reads it.
\<close>

datatype ReminderRule =
    MinutesBefore int
  | HoursBefore int
  | DaysBefore int
  | TimeOnDay int int
  | TimeBefore int int int

definition spec_rule_of :: "reminder \<Rightarrow> ReminderRule option" where
  "spec_rule_of rm =
     (if r_type rm = ''minutes_before'' then
        (case py_int (r_value rm) of Inr n \<Rightarrow> Some (MinutesBefore n) | Inl _ \<Rightarrow> None)
      else if r_type rm = ''hours_before'' then
        (case py_int (r_value rm) of Inr n \<Rightarrow> Some (HoursBefore n) | Inl _ \<Rightarrow> None)
      else if r_type rm = ''days_before'' then
        (case py_int (r_value rm) of Inr n \<Rightarrow> Some (DaysBefore n) | Inl _ \<Rightarrow> None)
      else if r_type rm = ''time_on_day'' then
        (case strptime_HM (r_value rm) of
           Inr t \<Rightarrow> Some (TimeOnDay (hour t) (minute t))
         | Inl _ \<Rightarrow> None)
      else if r_type rm = ''time_before'' then
        (case split_first CHR '':'' (r_value rm) of
           [dd, hm] \<Rightarrow>
             (case (py_int dd, strptime_HM hm) of
                (Inr n, Inr t) \<Rightarrow> Some (TimeBefore n (hour t) (minute t))
              | _ \<Rightarrow> None)
         | _ \<Rightarrow> None)
      else None)"

text \<open>
  The specification's mapping, on the time line in microseconds: the local wall-clock
  reading of each rule kind for an occurrence date, and the UTC instant, which is that
  reading minus the zone's offset at it.
\<close>

fun spec_wall_clock :: "pydate \<Rightarrow> ReminderRule \<Rightarrow> int" where
  "spec_wall_clock d (MinutesBefore n) = toordinal d * us_per_day - n * 60000000"
| "spec_wall_clock d (HoursBefore n) = toordinal d * us_per_day - n * 3600000000"
| "spec_wall_clock d (DaysBefore n) = (toordinal d - n) * us_per_day + 9 * 3600000000"
| "spec_wall_clock d (TimeOnDay hh mm) =
     toordinal d * us_per_day + (hh * 60 + mm) * 60000000"
| "spec_wall_clock d (TimeBefore n hh mm) =
     (toordinal d - n) * us_per_day + (hh * 60 + mm) * 60000000"

definition spec_ReminderInstant :: "pydate \<Rightarrow> ReminderRule \<Rightarrow> tzinfo \<Rightarrow> int" where
  "spec_ReminderInstant d rule tz =
     spec_wall_clock d rule - tz (spec_wall_clock d rule) * 1000000"

text \<open>The readings a datetime can hold: from 0001-01-01 00:00 to the end of 9999.\<close>

definition representable :: "int \<Rightarrow> bool" where
  "representable u = (us_per_day \<le> u \<and> u < (MAXORDINAL + 1) * us_per_day)"

text \<open>
  The grammar of each rule kind as the specification states it, and the grammar with any
  integer for the counts.
\<close>

definition valid_hhmm :: "int \<Rightarrow> int \<Rightarrow> bool" where
  "valid_hhmm hh mm = (0 \<le> hh \<and> hh \<le> 23 \<and> 0 \<le> mm \<and> mm \<le> 59)"

fun spec_rule_grammar :: "ReminderRule \<Rightarrow> bool" where
  "spec_rule_grammar (MinutesBefore n) = (0 \<le> n)"
| "spec_rule_grammar (HoursBefore n) = (0 \<le> n)"
| "spec_rule_grammar (DaysBefore n) = (0 \<le> n)"
| "spec_rule_grammar (TimeOnDay hh mm) = valid_hhmm hh mm"
| "spec_rule_grammar (TimeBefore n hh mm) = (0 \<le> n \<and> valid_hhmm hh mm)"

fun integer_rule_grammar :: "ReminderRule \<Rightarrow> bool" where
  "integer_rule_grammar (TimeOnDay hh mm) = valid_hhmm hh mm"
| "integer_rule_grammar (TimeBefore n hh mm) = valid_hhmm hh mm"
| "integer_rule_grammar _ = True"

definition reminder_satisfies :: "(ReminderRule \<Rightarrow> bool) \<Rightarrow> reminder \<Rightarrow> bool" where
  "reminder_satisfies G rm = (case spec_rule_of rm of None \<Rightarrow> False | Some rule \<Rightarrow> G rule)"

definition stored_rules_satisfy :: "(ReminderRule \<Rightarrow> bool) \<Rightarrow> bot \<Rightarrow> bool" where
  "stored_rules_satisfy G st =
     list_all (\<lambda>(user_id, u). list_all (reminder_satisfies G) (reminders u)) (users_data st)"

text \<open>The UTC datetime at an instant of the time line.\<close>

definition datetime_of_instant :: "int \<Rightarrow> pydatetime" where
  "datetime_of_instant x =
     combine (fromordinal (x div us_per_day)) (time_of_us (x mod us_per_day))"

text \<open>The birthdays \<^verbatim>\<open>add_birthday\<close> accepts, and a bot that stores no other.\<close>

definition accepted_date :: "string \<Rightarrow> bool" where
  "accepted_date date_str = (case strptime_md date_str of Inl _ \<Rightarrow> False | Inr _ \<Rightarrow> True)"

definition stored_birthdays_accepted :: "bot \<Rightarrow> bool" where
  "stored_birthdays_accepted st =
     list_all (\<lambda>(user_id, u). list_all (\<lambda>(name, date_str). accepted_date date_str) (birthdays u))
       (users_data st)"


section \<open>Concrete inputs\<close>

definition example_tzdb :: tzdb where
  "example_tzdb name =
     (if name = ''UTC'' then Some (\<lambda>_. 0)
      else if name = ''Etc/GMT-2'' then Some (\<lambda>_. 7200)
      else None)"

definition date_2025_03_15 :: pydate where
  "date_2025_03_15 = \<lparr>year = 2025, month = 3, day = 15\<rparr>"

definition empty_bot :: bot where
  "empty_bot = \<lparr>token = ''TOKEN'', users_data = [], pending_endpoints = []\<rparr>"

text \<open>The confirmed list of a subscriber, empty when there is no record yet.\<close>

definition endpoints_of :: "bot \<Rightarrow> string \<Rightarrow> string list" where
  "endpoints_of st user_id =
     (case map_of (users_data st) user_id of None \<Rightarrow> [] | Some u \<Rightarrow> apprise_endpoints u)"

definition succeeding_env :: env where
  "succeeding_env =
     \<lparr>tzdb_of = example_tzdb, apprise_add = (\<lambda>_. True),
      apprise_notify = (\<lambda>_ _ _. Returns True)\<rparr>"

definition failing_env :: env where
  "failing_env =
     \<lparr>tzdb_of = example_tzdb, apprise_add = (\<lambda>_. True),
      apprise_notify = (\<lambda>_ _ _. Returns False)\<rparr>"

definition raising_env :: env where
  "raising_env =
     \<lparr>tzdb_of = example_tzdb, apprise_add = (\<lambda>_. True),
      apprise_notify = (\<lambda>_ _ _. Raises OtherError)\<rparr>"

definition three_endpoint_bot :: bot where
  "three_endpoint_bot =
     \<lparr>token = ''TOKEN'',
      users_data =
        [(''7'', \<lparr>birthdays = [], apprise_endpoints = [''mailto://a'', ''json://b'', ''tgram://TOKEN/7''],
                 reminders = [], timezone = ''UTC''\<rparr>)],
      pending_endpoints = [(''7'', ''mailto://a'')]\<rparr>"


definition ana_user :: user_data where
  "ana_user =
     \<lparr>birthdays = [(''Ana'', ''03-15'')], apprise_endpoints = [''mailto://b''],
      reminders = [\<lparr>r_type = ''days_before'', r_value = ''1''\<rparr>], timezone = ''UTC''\<rparr>"

definition ana_bot :: bot where
  "ana_bot = \<lparr>token = ''TOKEN'', users_data = [(''2'', ana_user)], pending_endpoints = []\<rparr>"

text \<open>14 March 2025 at 08:59:30, 09:00:00 and 09:00:30.\<close>

definition tick_085930 :: pydatetime where
  "tick_085930 =
     combine \<lparr>year = 2025, month = 3, day = 14\<rparr>
       \<lparr>hour = 8, minute = 59, second = 30, microsecond = 0\<rparr>"

definition tick_090000 :: pydatetime where
  "tick_090000 = combine \<lparr>year = 2025, month = 3, day = 14\<rparr> (mk_time 9 0)"

definition tick_090030 :: pydatetime where
  "tick_090030 =
     combine \<lparr>year = 2025, month = 3, day = 14\<rparr>
       \<lparr>hour = 9, minute = 0, second = 30, microsecond = 0\<rparr>"

definition ana_notification :: event where
  "ana_notification =
     Sent ''2'' (BirthdayReminderTitle ''Ana'') (BirthdayComingUp ''Ana'' ''03-15'')
       [[''mailto://b'']] 1"

text \<open>The reminders of a subscriber, none when there is no record yet.\<close>

definition reminders_of :: "bot \<Rightarrow> string \<Rightarrow> reminder list" where
  "reminders_of st user_id =
     (case map_of (users_data st) user_id of None \<Rightarrow> [] | Some u \<Rightarrow> reminders u)"

definition minus_five_bot :: bot where
  "minus_five_bot =
     \<lparr>token = ''TOKEN'',
      users_data =
        [(''7'', \<lparr>birthdays = [], apprise_endpoints = [],
                  reminders = [\<lparr>r_type = ''minutes_before'', r_value = ''-5''\<rparr>],
                  timezone = ''UTC''\<rparr>)],
      pending_endpoints = []\<rparr>"

definition days_before_1 :: reminder where
  "days_before_1 = \<lparr>r_type = ''days_before'', r_value = ''1''\<rparr>"

definition time_before_1_1800 :: reminder where
  "time_before_1_1800 = \<lparr>r_type = ''time_before'', r_value = ''1:18:00''\<rparr>"

definition days_before_billion :: reminder where
  "days_before_billion = \<lparr>r_type = ''days_before'', r_value = ''1000000000''\<rparr>"

text \<open>The next command, on the state the handler before it left.\<close>

definition and_then ::
  "py_error + bot \<times> reply \<Rightarrow> (bot \<Rightarrow> py_error + bot \<times> reply) \<Rightarrow> py_error + bot \<times> reply" where
  "and_then r f = (case r of Inl e \<Rightarrow> Inl e | Inr (st, _) \<Rightarrow> f st)"

text \<open>
  Two subscribers on 30 December 9999 at 09:00:00: the first has a birthday on 1 January,
  the second one on 31 December with a reminder one day before and a confirmed endpoint.
\<close>

definition new_year_user :: user_data where
  "new_year_user =
     \<lparr>birthdays = [(''Neo'', ''01-01'')], apprise_endpoints = [],
      reminders = [\<lparr>r_type = ''time_on_day'', r_value = ''09:00''\<rparr>], timezone = ''UTC''\<rparr>"

definition new_years_eve_user :: user_data where
  "new_years_eve_user =
     \<lparr>birthdays = [(''Eve'', ''12-31'')],
      apprise_endpoints = [''mailto://b'', ''tgram://TOKEN/2''],
      reminders = [\<lparr>r_type = ''days_before'', r_value = ''1''\<rparr>], timezone = ''UTC''\<rparr>"

definition eve_bot :: bot where
  "eve_bot =
     \<lparr>token = ''TOKEN'', users_data = [(''2'', new_years_eve_user)], pending_endpoints = []\<rparr>"

definition neo_then_eve_bot :: bot where
  "neo_then_eve_bot =
     \<lparr>token = ''TOKEN'', users_data = [(''1'', new_year_user), (''2'', new_years_eve_user)],
      pending_endpoints = []\<rparr>"

definition tick_9999_12_30 :: pydatetime where
  "tick_9999_12_30 = combine \<lparr>year = 9999, month = 12, day = 30\<rparr> (mk_time 9 0)"

definition eve_notification :: event where
  "eve_notification =
     Sent ''2'' (BirthdayReminderTitle ''Eve'') (BirthdayComingUp ''Eve'' ''12-31'')
       [[''mailto://b'', ''tgram://TOKEN/2'']] 2"


section \<open>The calendar\<close>

text \<open>
  \<^verbatim>\<open>fromordinal\<close> inverts \<^verbatim>\<open>toordinal\<close>: the date of day number \<open>n\<close> has day number
  \<open>n\<close>. The proof follows the four cycles of the Gregorian calendar.
\<close>

lemma dby_decomp:
  fixes a b c d :: int
  assumes "0 \<le> b" "b \<le> 3" "0 \<le> c" "c \<le> 24" "0 \<le> d" "d \<le> 3"
  shows "days_before_year (a * 400 + 1 + b * 100 + c * 4 + d) = 146097 * a + 36524 * b + 1461 * c + 365 * d"
proof -
  define y1 where "y1 = 400 * a + 100 * b + 4 * c + d"
  have q4: "y1 div 4 = 100 * a + 25 * b + c"
    by (rule int_div_pos_eq [where r = d]) (use assms in \<open>simp_all add: y1_def\<close>)
  have q100: "y1 div 100 = 4 * a + b"
    by (rule int_div_pos_eq [where r = "4 * c + d"]) (use assms in \<open>simp_all add: y1_def\<close>)
  have q400: "y1 div 400 = a"
    by (rule int_div_pos_eq [where r = "100 * b + 4 * c + d"]) (use assms in \<open>simp_all add: y1_def\<close>)
  have "a * 400 + 1 + b * 100 + c * 4 + d - 1 = y1" by (simp add: y1_def)
  then have "days_before_year (a * 400 + 1 + b * 100 + c * 4 + d) = y1 * 365 + y1 div 4 - y1 div 100 + y1 div 400"
    unfolding days_before_year_def by (simp only:)
  also have "\<dots> = 146097 * a + 36524 * b + 1461 * c + 365 * d"
    unfolding q4 q100 q400 by (simp add: y1_def)
  finally show ?thesis .
qed

lemma leap_decomp:
  fixes a b c d :: int
  assumes "0 \<le> b" "b \<le> 3" "0 \<le> c" "c \<le> 24" "0 \<le> d" "d \<le> 3"
  shows "is_leap (a * 400 + 1 + b * 100 + c * 4 + d) = (d = 3 \<and> (c \<noteq> 24 \<or> b = 3))"
proof -
  define y where "y = a * 400 + 1 + b * 100 + c * 4 + d"
  have "is_leap y = (d = 3 \<and> (c \<noteq> 24 \<or> b = 3))"
  proof (cases "d = 3")
    case False
    have "y mod 4 = d + 1"
      by (rule int_mod_pos_eq [where q = "100 * a + 25 * b + c"])
         (use assms False in \<open>simp_all add: y_def\<close>)
    with assms False show ?thesis by (simp add: is_leap_def)
  next
    case True
    have m4: "y mod 4 = 0"
      by (rule int_mod_pos_eq [where q = "100 * a + 25 * b + c + 1"])
         (use True in \<open>simp_all add: y_def\<close>)
    show ?thesis
    proof (cases "c = 24")
      case c: False
      have "y mod 100 = 4 * c + 4"
        by (rule int_mod_pos_eq [where q = "4 * a + b"])
           (use assms True c in \<open>simp_all add: y_def\<close>)
      with assms m4 True c show ?thesis by (simp add: is_leap_def)
    next
      case c: True
      have m100: "y mod 100 = 0"
        by (rule int_mod_pos_eq [where q = "4 * a + b + 1"])
           (use True c in \<open>simp_all add: y_def\<close>)
      show ?thesis
      proof (cases "b = 3")
        case b: True
        have "y mod 400 = 0"
          by (rule int_mod_pos_eq [where q = "a + 1"])
             (use True c b in \<open>simp_all add: y_def\<close>)
        with m4 True c b show ?thesis by (simp add: is_leap_def)
      next
        case b: False
        have "y mod 400 = 100 * b + 100"
          by (rule int_mod_pos_eq [where q = a])
             (use assms True c b in \<open>simp_all add: y_def\<close>)
        with assms m4 m100 True c b show ?thesis by (simp add: is_leap_def)
      qed
    qed
  qed
  then show ?thesis unfolding y_def .
qed

lemma ord_parts:
  fixes n0 :: int
  defines "a \<equiv> n0 div 146097"
  defines "b \<equiv> n0 mod 146097 div 36524"
  defines "c \<equiv> n0 mod 146097 mod 36524 div 1461"
  defines "d \<equiv> n0 mod 146097 mod 36524 mod 1461 div 365"
  defines "e \<equiv> n0 mod 146097 mod 36524 mod 1461 mod 365"
  shows "n0 = 146097 * a + 36524 * b + 1461 * c + 365 * d + e"
    and "0 \<le> b" "b \<le> 4" "0 \<le> c" "c \<le> 24" "0 \<le> d" "d \<le> 4" "0 \<le> e" "e < 365"
    and "b = 4 \<Longrightarrow> c = 0 \<and> d = 0 \<and> e = 0"
    and "d = 4 \<Longrightarrow> c \<le> 23 \<and> e = 0"
proof -
  define r400 where "r400 = n0 mod 146097"
  define r100 where "r100 = r400 mod 36524"
  define r4 where "r4 = r100 mod 1461"
  have b': "b = r400 div 36524" and c': "c = r100 div 1461"
    and d': "d = r4 div 365" and e': "e = r4 mod 365"
    unfolding b_def c_def d_def e_def r400_def r100_def r4_def by (rule refl)+
  have 1: "n0 = 146097 * a + r400" "0 \<le> r400" "r400 < 146097"
    by (simp_all add: a_def r400_def)
  have 2: "r400 = 36524 * b + r100" "0 \<le> r100" "r100 < 36524"
    by (simp_all add: b' r100_def)
  have 3: "r100 = 1461 * c + r4" "0 \<le> r4" "r4 < 1461"
    by (simp_all add: c' r4_def)
  have 4: "r4 = 365 * d + e" "0 \<le> e" "e < 365"
    by (simp_all add: d' e')
  show b: "0 \<le> b" "b \<le> 4" using 1 2 by linarith+
  show c: "0 \<le> c" "c \<le> 24" using 2 3 by linarith+
  show d: "0 \<le> d" "d \<le> 4" using 3 4 by linarith+
  show "0 \<le> e" "e < 365" by (rule 4)+
  show "c = 0 \<and> d = 0 \<and> e = 0" if "b = 4"
  proof -
    from that 1 2 have "r100 = 0" by linarith
    with 3 c have "c = 0" "r4 = 0" by linarith+
    with 4 d have "d = 0" "e = 0" by linarith+
    with \<open>c = 0\<close> show ?thesis by simp
  qed
  show "c \<le> 23 \<and> e = 0" if "d = 4"
  proof -
    from that 3 4 have "e = 0" "r4 = 1460" by linarith+
    with 2 3 have "c \<le> 23" by linarith
    with \<open>e = 0\<close> show ?thesis by simp
  qed
  show "n0 = 146097 * a + 36524 * b + 1461 * c + 365 * d + e" using 1 2 3 4 by linarith
qed

lemma month_cases:
  fixes m :: int
  assumes "1 \<le> m" "m \<le> 12"
  shows "m = 1 \<or> m = 2 \<or> m = 3 \<or> m = 4 \<or> m = 5 \<or> m = 6 \<or> m = 7 \<or> m = 8 \<or> m = 9 \<or> m = 10 \<or> m = 11 \<or> m = 12"
proof -
  have "[1..12::int] = [1, 2, 3, 4, 5, 6, 7, 8, 9, 10, 11, 12]"
    by code_simp
  moreover from assms have "m \<in> set [1..12]" by simp
  ultimately have "m \<in> set [1, 2, 3, 4, 5, 6, 7, 8, 9, 10, 11, 12]" by (simp only:)
  then show ?thesis by simp
qed

lemma days_before_month_step:
  fixes m :: int
  assumes "2 \<le> m" "m \<le> 12"
  shows "days_before_month_common m = days_before_month_common (m - 1) + days_in_month_common (m - 1)"
proof -
  from assms have "1 \<le> m" by simp
  from month_cases [OF this assms(2)] assms(1) show ?thesis
    by (elim disjE) (simp_all add: days_before_month_common_def days_in_month_common_def)
qed

lemma toordinal_ymd_of_cycles:
  assumes eq: "n - 1 = 146097 * a + 36524 * b + 1461 * c + 365 * d + e"
    and bnd: "0 \<le> b" "b \<le> 4" "0 \<le> c" "c \<le> 24" "0 \<le> d" "d \<le> 4" "0 \<le> e" "e < 365"
    and b4: "b = 4 \<Longrightarrow> c = 0 \<and> d = 0 \<and> e = 0"
    and d4: "d = 4 \<Longrightarrow> c \<le> 23 \<and> e = 0"
  shows "toordinal (ymd_of_cycles a b c d e) = n"
proof -
  define Y where "Y = a * 400 + 1 + b * 100 + c * 4 + d"
  define L where "L = (d = 3 \<and> (c \<noteq> 24 \<or> b = 3))"
  define m0 where "m0 = (e + 50) div 32"
  define p0 where "p0 = days_before_month_common m0 + (if 2 < m0 \<and> L then 1 else 0)"
  have fo: "ymd_of_cycles a b c d e =
      (if d = 4 \<or> b = 4 then \<lparr>year = Y - 1, month = 12, day = 31\<rparr>
       else if e < p0
         then \<lparr>year = Y, month = m0 - 1,
               day = e - (p0 - (days_in_month_common (m0 - 1) + (if m0 - 1 = 2 \<and> L then 1 else 0))) + 1\<rparr>
         else \<lparr>year = Y, month = m0, day = e - p0 + 1\<rparr>)"
    unfolding ymd_of_cycles_def Let_def Y_def L_def m0_def p0_def by (rule refl)
  show ?thesis
  proof (cases "d = 4 \<or> b = 4")
    case True
    obtain c' b' where Y1: "Y - 1 = a * 400 + 1 + b' * 100 + c' * 4 + 3"
      and n: "n = 146097 * a + 36524 * b' + 1461 * c' + 1461"
      and r: "0 \<le> b'" "b' \<le> 3" "0 \<le> c'" "c' \<le> 24" "c' \<noteq> 24 \<or> b' = 3"
    proof (cases "b = 4")
      case True
      with b4 have "c = 0" "d = 0" "e = 0" by simp_all
      with True eq show thesis
        by (intro that [of 3 24]) (simp_all add: Y_def)
    next
      case False
      with \<open>d = 4 \<or> b = 4\<close> have "d = 4" by simp
      with d4 have "c \<le> 23" "e = 0" by simp_all
      with \<open>d = 4\<close> False bnd eq show thesis
        by (intro that [of b c]) (simp_all add: Y_def)
    qed
    have "is_leap (Y - 1) = (3 = (3::int) \<and> (c' \<noteq> 24 \<or> b' = 3))"
      unfolding Y1 by (rule leap_decomp) (use r in simp_all)
    with r have "is_leap (Y - 1)" by simp
    moreover have "days_before_year (Y - 1) = 146097 * a + 36524 * b' + 1461 * c' + 365 * 3"
      unfolding Y1 by (rule dby_decomp) (use r in simp_all)
    ultimately show ?thesis
      using True n by (simp add: fo toordinal_def days_before_month_def days_before_month_common_def)
  next
    case False
    with bnd have b3: "b \<le> 3" and d3: "d \<le> 3" by simp_all
    have leap: "is_leap Y = L" unfolding Y_def L_def
      by (rule leap_decomp) (use bnd b3 d3 in simp_all)
    have dby: "days_before_year Y = 146097 * a + 36524 * b + 1461 * c + 365 * d"
      unfolding Y_def by (rule dby_decomp) (use bnd b3 d3 in simp_all)
    have m0: "1 \<le> m0" "m0 \<le> 12" unfolding m0_def using bnd by simp_all
    show ?thesis
    proof (cases "e < p0")
      case True
      have "m0 \<noteq> 1" using True bnd by (auto simp: p0_def days_before_month_common_def)
      with m0 have "2 \<le> m0" by simp
      from days_before_month_step [OF this m0(2)] True False eq show ?thesis
        by (simp add: fo toordinal_def days_before_month_def leap dby p0_def)
    next
      case f: False
      with False eq show ?thesis
        by (simp add: fo toordinal_def days_before_month_def leap dby p0_def)
    qed
  qed
qed

lemma toordinal_fromordinal: "toordinal (fromordinal n) = n"
  unfolding fromordinal_def Let_def
  by (rule toordinal_ymd_of_cycles [OF ord_parts])

section \<open>NotificationDispatcher\<close>

lemma endpoints_of_get_user_data:
  "apprise_endpoints (fst (get_user_data st user_id)) = endpoints_of st user_id"
  by (simp add: get_user_data_def endpoints_of_def new_user_data_def split: option.splits)

text \<open>
  C6. \<^verbatim>\<open>send_notification\<close> always returns a count and never raises; with no confirmed
  endpoint it returns 0 and \<^verbatim>\<open>notify\<close> is not called; otherwise \<^verbatim>\<open>notify\<close> is called
  once on the endpoints Apprise accepted, and the count is the number of confirmed
  endpoints when it returns true, 0 when it returns false and 0 when it raises.
\<close>

theorem send_notification_count:
  "(\<exists>n. fst (send_notification ev st user_id ttl message) = Inr n) \<and>
   (endpoints_of st user_id = [] \<longrightarrow>
      fst (send_notification ev st user_id ttl message) = Inr 0 \<and>
      fst (snd (send_notification ev st user_id ttl message)) = []) \<and>
   (endpoints_of st user_id \<noteq> [] \<longrightarrow>
      fst (snd (send_notification ev st user_id ttl message)) =
        [filter (apprise_add ev) (endpoints_of st user_id)] \<and>
      (apprise_notify ev (filter (apprise_add ev) (endpoints_of st user_id)) ttl message
         = Returns True \<longrightarrow>
       fst (send_notification ev st user_id ttl message)
         = Inr (int (length (endpoints_of st user_id)))) \<and>
      (apprise_notify ev (filter (apprise_add ev) (endpoints_of st user_id)) ttl message
         = Returns False \<longrightarrow>
       fst (send_notification ev st user_id ttl message) = Inr 0) \<and>
      (\<forall>e. apprise_notify ev (filter (apprise_add ev) (endpoints_of st user_id)) ttl message
         = Raises e \<longrightarrow>
       fst (send_notification ev st user_id ttl message) = Inr 0))"
proof -
  obtain u st1 where g: "get_user_data st user_id = (u, st1)" by (cases "get_user_data st user_id")
  then have u: "apprise_endpoints u = endpoints_of st user_id"
    using endpoints_of_get_user_data [of st user_id] by simp
  show ?thesis
    by (cases "apprise_notify ev (filter (apprise_add ev) (endpoints_of st user_id)) ttl message")
       (simp_all add: send_notification_def g u Let_def)
qed

text \<open>
  Three confirmed endpoints: overall failure gives 0, not a partial count; success gives
  3; an exception gives 0; and a subscriber with no endpoint gets 0 with no delivery.
\<close>

theorem send_notification_count_witness:
  "endpoints_of three_endpoint_bot ''7'' \<noteq> [] \<and>
   length (endpoints_of three_endpoint_bot ''7'') = 3 \<and>
   fst (send_notification failing_env three_endpoint_bot ''7'' TestNotificationTitle TestMessage) = Inr 0 \<and>
   fst (send_notification succeeding_env three_endpoint_bot ''7'' TestNotificationTitle TestMessage) = Inr 3 \<and>
   fst (send_notification raising_env three_endpoint_bot ''7'' TestNotificationTitle TestMessage) = Inr 0 \<and>
   endpoints_of empty_bot ''7'' = [] \<and>
   send_notification succeeding_env empty_bot ''7'' TestNotificationTitle TestMessage
     = (Inr 0, [], empty_bot\<lparr>users_data := [(''7'', new_user_data)]\<rparr>)"
  using send_notification_count [of failing_env three_endpoint_bot "''7''" TestNotificationTitle TestMessage]
    send_notification_count [of succeeding_env three_endpoint_bot "''7''" TestNotificationTitle TestMessage]
    send_notification_count [of raising_env three_endpoint_bot "''7''" TestNotificationTitle TestMessage]
    send_notification_count [of succeeding_env empty_bot "''7''" TestNotificationTitle TestMessage]
  by (simp add: endpoints_of_def three_endpoint_bot_def failing_env_def succeeding_env_def
      raising_env_def empty_bot_def send_notification_def get_user_data_def new_user_data_def)

section \<open>EndpointConfirmationFlow\<close>

lemma not_remove_yes: "\<not> py_startswith ''remove_endpoint_'' ''confirm_endpoint_yes''"
  by (simp add: py_startswith_def)


lemma endpoints_of_put_user_data:
  "endpoints_of (put_user_data st user_id u) user_id = apprise_endpoints u"
  by (simp add: endpoints_of_def put_user_data_def update_conv')

lemma get_user_data_pending:
  "pending_endpoints (snd (get_user_data st user_id)) = pending_endpoints st"
  by (simp add: get_user_data_def split: option.splits)

lemma get_user_data_token:
  "token (snd (get_user_data st user_id)) = token st"
  by (simp add: get_user_data_def split: option.splits)

lemma handle_callback_confirm:
  assumes "map_of (pending_endpoints st) user_id = Some e"
  shows "\<exists>st'. handle_callback st user_id chat_id ''confirm_endpoint_yes''
            = Inr (st', EndpointAdded e (length (endpoints_of st' user_id))) \<and>
          map_of (pending_endpoints st') user_id = None \<and>
          endpoints_of st' user_id =
            endpoints_of st user_id @ [e] @
            (if telegram_endpoint st chat_id \<in> set (endpoints_of st user_id @ [e]) then []
             else [telegram_endpoint st chat_id])"
proof -
  obtain u st1 where g: "get_user_data st user_id = (u, st1)" by (cases "get_user_data st user_id")
  then have u: "apprise_endpoints u = endpoints_of st user_id"
    using endpoints_of_get_user_data [of st user_id] by simp
  from g have p: "pending_endpoints st1 = pending_endpoints st"
    using get_user_data_pending [of st user_id] by simp
  show ?thesis
    using assms
    by (simp add: handle_callback_def not_remove_yes g u p Let_def endpoints_of_def
        put_user_data_def update_conv' delete_conv')
qed




lemma endpoints_of_pending_update [simp]:
  "endpoints_of (st\<lparr>pending_endpoints := p\<rparr>) v = endpoints_of st v"
  by (simp add: endpoints_of_def)








lemma send_notification_success:
  assumes "endpoints_of st user_id \<noteq> []"
    and "apprise_notify ev (filter (apprise_add ev) (endpoints_of st user_id)) ttl message
           = Returns True"
  shows "fst (send_notification ev st user_id ttl message)
           = Inr (int (length (endpoints_of st user_id)))"
proof -
  obtain u st1 where g: "get_user_data st user_id = (u, st1)" by (cases "get_user_data st user_id")
  then have u: "apprise_endpoints u = endpoints_of st user_id"
    using endpoints_of_get_user_data [of st user_id] by simp
  from assms show ?thesis by (simp add: send_notification_def g u Let_def)
qed

text \<open>
  C10. Confirming appends the pending endpoint without looking for it in the confirmed
  list: when the list already has the endpoint, it has it one more time afterwards, at
  least twice, and a successful dispatch counts every entry of the longer list.
\<close>

theorem confirm_appends_duplicate:
  assumes "map_of (pending_endpoints st) user_id = Some e"
    and "e \<in> set (endpoints_of st user_id)"
  shows "\<exists>st'. handle_callback st user_id chat_id ''confirm_endpoint_yes''
                 = Inr (st', EndpointAdded e (length (endpoints_of st' user_id))) \<and>
               count_list (endpoints_of st' user_id) e
                 = count_list (endpoints_of st user_id) e + 1 \<and>
               2 \<le> count_list (endpoints_of st' user_id) e \<and>
               length (endpoints_of st user_id) < length (endpoints_of st' user_id) \<and>
               (\<forall>ev ttl message.
                  apprise_notify ev (filter (apprise_add ev) (endpoints_of st' user_id)) ttl message
                    = Returns True \<longrightarrow>
                  fst (send_notification ev st' user_id ttl message)
                    = Inr (int (length (endpoints_of st' user_id))))"
proof -
  from handle_callback_confirm [OF assms(1), of chat_id] obtain st' where
    h: "handle_callback st user_id chat_id ''confirm_endpoint_yes''
          = Inr (st', EndpointAdded e (length (endpoints_of st' user_id)))"
    and l: "endpoints_of st' user_id =
            endpoints_of st user_id @ [e] @
            (if telegram_endpoint st chat_id \<in> set (endpoints_of st user_id @ [e]) then []
             else [telegram_endpoint st chat_id])"
    by blast
  have c: "count_list (endpoints_of st' user_id) e = count_list (endpoints_of st user_id) e + 1"
    unfolding l by auto
  from assms(2) have "count_list (endpoints_of st user_id) e \<noteq> 0"
    by (simp add: count_list_0_iff)
  with c have c2: "2 \<le> count_list (endpoints_of st' user_id) e" by simp
  have len: "length (endpoints_of st user_id) < length (endpoints_of st' user_id)"
    unfolding l by simp
  then have ne: "endpoints_of st' user_id \<noteq> []" by auto
  from h c c2 len send_notification_success [OF ne] show ?thesis by blast
qed

text \<open>
  A subscriber whose list has \<^verbatim>\<open>mailto://a\<close> confirms a pending \<^verbatim>\<open>mailto://a\<close>: the list
  has it twice and a successful dispatch counts both.
\<close>

theorem confirm_appends_duplicate_witness:
  "map_of (pending_endpoints three_endpoint_bot) ''7'' = Some ''mailto://a'' \<and>
   ''mailto://a'' \<in> set (endpoints_of three_endpoint_bot ''7'') \<and>
   (\<exists>st'. handle_callback three_endpoint_bot ''7'' 7 ''confirm_endpoint_yes''
             = Inr (st', EndpointAdded ''mailto://a'' (length (endpoints_of st' ''7''))) \<and>
          count_list (endpoints_of st' ''7'') ''mailto://a'' = 2 \<and>
          fst (send_notification succeeding_env st' ''7'' TestNotificationTitle TestMessage)
            = Inr (int (length (endpoints_of st' ''7''))))"
proof -
  have p: "map_of (pending_endpoints three_endpoint_bot) ''7'' = Some ''mailto://a''"
    by (simp add: three_endpoint_bot_def)
  have e: "endpoints_of three_endpoint_bot ''7'' = [''mailto://a'', ''json://b'', ''tgram://TOKEN/7'']"
    by (simp add: three_endpoint_bot_def endpoints_of_def)
  have m: "''mailto://a'' \<in> set (endpoints_of three_endpoint_bot ''7'')"
    by (simp add: e)
  have s: "apprise_notify succeeding_env xs TestNotificationTitle TestMessage = Returns True" for xs
    by (simp add: succeeding_env_def)
  from confirm_appends_duplicate [OF p m, of 7] e s p m show ?thesis
    by auto
qed

section \<open>ReminderScheduler\<close>

text \<open>
  The firing test accepts a minute on either side of the reminder instant, so whenever
  two ticks exactly one minute apart have the instant between them, both pass it.
\<close>

lemma straddling_ticks_both_due:
  assumes "timestamp_us t1 \<le> timestamp_us instant" and "timestamp_us instant \<le> timestamp_us t2"
    and "timestamp_us t2 - timestamp_us t1 = 60000000"
  shows "is_due t1 instant \<and> is_due t2 instant"
  using assms by (simp add: is_due_def abs_le_iff)

text \<open>
  C3. The claim: with ticks every 60 seconds and the test
  \<open>\<bar>now - instant\<bar> \<le> 60\<close> seconds, two ticks 60 seconds apart that straddle a
  reminder instant never both fire. In the code they do. Ana's birthday is 03-15 and
  the rule is one day before, so the instant is 14 March 2025 09:00:00 UTC; the ticks at
  08:59:30 and at 09:00:30 are 60 seconds apart, the instant lies between them, both
  pass the test, and \<^verbatim>\<open>check_birthdays\<close> sends the same notification in both.
\<close>

theorem ticks_a_minute_apart_both_fire:
  "timestamp_us tick_090030 - timestamp_us tick_085930 = 60000000 \<and>
   calculate_reminder_time example_tzdb date_2025_03_15
     \<lparr>r_type = ''days_before'', r_value = ''1''\<rparr> ''UTC'' = Inr tick_090000 \<and>
   timestamp_us tick_085930 < timestamp_us tick_090000 \<and>
   timestamp_us tick_090000 < timestamp_us tick_090030 \<and>
   is_due tick_085930 tick_090000 \<and> is_due tick_090030 tick_090000 \<and>
   fst (check_birthdays succeeding_env tick_085930 tick_085930 ana_bot) = [ana_notification] \<and>
   fst (check_birthdays succeeding_env tick_090030 tick_090030 ana_bot) = [ana_notification]"
  by code_simp

text \<open>
  Inside the \<^verbatim>\<open>try\<close> block a failure is logged and the loop goes on with the next
  reminder: an exception of \<^verbatim>\<open>calculate_reminder_time\<close> costs one log entry and nothing
  else.
\<close>

lemma calculation_failure_is_isolated:
  assumes "calculate_reminder_time (tzdb_of ev) next_birthday rm timezone_str = Inl e"
  shows "check_reminders ev current_time user_id name birthday_str next_birthday timezone_str
           (rm # rms) st =
         (LoggedError name e #
            fst (check_reminders ev current_time user_id name birthday_str next_birthday
                   timezone_str rms st),
          snd (check_reminders ev current_time user_id name birthday_str next_birthday
                 timezone_str rms st))"
  using assms by (simp add: split_beta)

section \<open>Reading integers and times\<close>

lemma digit_val_range: "is_digit c \<Longrightarrow> 0 \<le> digit_val c \<and> digit_val c \<le> 9"
  by (auto simp: is_digit_def digit_val_def)

lemma digit_not_special:
  assumes "is_digit c"
  shows "\<not> int_space c" "c \<noteq> CHR ''-''" "c \<noteq> CHR ''+''" "c \<noteq> CHR ''_''" "c \<noteq> CHR '':''"
  using assms by (auto simp: is_digit_def int_space_def)

lemma py_int_one_digit: "is_digit a \<Longrightarrow> py_int [a] = Inr (digit_val a)"
  by (simp add: py_int_def int_strip_def parse_unsigned_def digit_not_special)

lemma py_int_two_digits:
  "is_digit a \<Longrightarrow> is_digit b \<Longrightarrow> py_int [a, b] = Inr (10 * digit_val a + digit_val b)"
  by (simp add: py_int_def int_strip_def parse_unsigned_def digit_not_special)

lemma int_space_space [simp]: "int_space CHR '' ''"
  by (simp add: int_space_def)

lemma py_int_space_digit: "is_digit b \<Longrightarrow> py_int [CHR '' '', b] = Inr (digit_val b)"
  by (simp add: py_int_def int_strip_def parse_unsigned_def digit_not_special)

lemma digit_val_consts [simp]:
  "digit_val CHR ''0'' = 0" "digit_val CHR ''1'' = 1" "digit_val CHR ''2'' = 2"
  "digit_val CHR ''3'' = 3"
  by (simp_all add: digit_val_def)

lemma is_digit_consts [simp]:
  "is_digit CHR ''0''" "is_digit CHR ''1''" "is_digit CHR ''2''" "is_digit CHR ''3''"
  by (simp_all add: is_digit_def)

lemma py_int_ValueError: "py_int s = Inl e \<Longrightarrow> e = ValueError"
  by (auto simp: py_int_def split: list.splits if_splits option.splits)

lemma re_H_sound:
  assumes "(h, r) \<in> set (re_H s)"
  shows "\<exists>v. py_int h = Inr v \<and> 0 \<le> v \<and> v \<le> 23"
  using assms
  by (auto simp: re_H_def digit_in_def py_int_one_digit py_int_two_digits
      is_digit_def digit_val_def split: list.splits if_splits)

lemma re_M_sound:
  assumes "(m, r) \<in> set (re_M s)"
  shows "\<exists>v. py_int m = Inr v \<and> 0 \<le> v \<and> v \<le> 59"
  using assms
  by (auto simp: re_M_def digit_in_def py_int_one_digit py_int_two_digits
      is_digit_def digit_val_def split: list.splits if_splits)


lemma strptime_HM_parts:
  assumes "strptime_HM s = Inr t"
  shows "\<exists>h m r r1 hv mv. (h, r) \<in> set (re_H s) \<and> (m, []) \<in> set (re_M r1) \<and>
           py_int h = Inr hv \<and> py_int m = Inr mv \<and> t = mk_time hv mv"
proof -
  define L where "L = [(h, m, r2). (h, r) \<leftarrow> re_H s, r1 \<leftarrow> re_lit CHR '':'' r, (m, r2) \<leftarrow> re_M r1]"
  from assms obtain h m rest hv mv where L: "L = (h, m, []) # rest"
    and v: "py_int h = Inr hv" "py_int m = Inr mv" "t = mk_time hv mv"
    unfolding strptime_HM_def L_def [symmetric]
    by (auto split: list.splits if_splits sum.splits)
  from L have "(h, m, []) \<in> set L" by simp
  then obtain r r1 where "(h, r) \<in> set (re_H s)" "(m, []) \<in> set (re_M r1)"
    unfolding L_def by auto
  with v show ?thesis by blast
qed

lemma strptime_HM_sound:
  assumes "strptime_HM s = Inr t"
  shows "valid_hhmm (hour t) (minute t) \<and> second t = 0 \<and> microsecond t = 0"
proof -
  from strptime_HM_parts [OF assms] obtain h m r r1 hv mv where
    h: "(h, r) \<in> set (re_H s)" and m: "(m, []) \<in> set (re_M r1)"
    and v: "py_int h = Inr hv" "py_int m = Inr mv" "t = mk_time hv mv"
    by blast
  from re_H_sound [OF h] v have "0 \<le> hv \<and> hv \<le> 23" by auto
  moreover from re_M_sound [OF m] v have "0 \<le> mv \<and> mv \<le> 59" by auto
  ultimately show ?thesis by (simp add: v valid_hhmm_def mk_time_def)
qed

lemma strptime_HM_ValueError: "strptime_HM s = Inl e \<Longrightarrow> e = ValueError"
  by (auto simp: strptime_HM_def split: list.splits if_splits sum.splits prod.splits
      dest: py_int_ValueError)

lemma validate_reminder_ValueError: "validate_reminder rm = Inl e \<Longrightarrow> e = ValueError"
  by (auto simp: validate_reminder_def Let_def split: if_splits sum.splits
      dest: py_int_ValueError strptime_HM_ValueError)

lemma split_char_not_Nil [simp]: "split_char c s \<noteq> []"
  by (induction s) (simp_all add: Let_def)

lemma join_split_char: "join_char c (split_char c s) = s"
proof (induction s)
  case Nil
  show ?case by simp
next
  case (Cons x xs)
  obtain p ps where r: "split_char c xs = p # ps"
    by (cases "split_char c xs") simp_all
  with Cons show ?case
    by (cases ps) (simp_all add: Let_def)
qed

lemma split_first_of_three:
  "split_char c s = [a, b, d] \<Longrightarrow> split_first c s = [a, b @ c # d]"
proof (induction s arbitrary: a)
  case Nil
  then show ?case by simp
next
  case (Cons x xs)
  show ?case
  proof (cases "x = c")
    case True
    with Cons.prems have "a = []" and r: "split_char c xs = [b, d]" by simp_all
    from join_split_char [of c xs] r have "xs = b @ c # d" by simp
    with True \<open>a = []\<close> show ?thesis by simp
  next
    case False
    obtain p ps where r: "split_char c xs = p # ps"
      by (cases "split_char c xs") simp_all
    with False Cons.prems have "a = x # p" "ps = [b, d]" by (simp_all add: Let_def)
    with r Cons.IH [of p] have "split_first c xs = [p, b @ c # d]" by simp
    with False \<open>a = x # p\<close> show ?thesis by (simp add: Let_def)
  qed
qed

text \<open>
  A reminder \<^verbatim>\<open>validate_reminder\<close> accepts has a rule in the wire format, with any integer
  as count and a time between 00:00 and 23:59. For \<^verbatim>\<open>time_before\<close> the validator splits
  at every colon and \<^verbatim>\<open>calculate_reminder_time\<close> at the first one; the two agree on a
  value of three parts.
\<close>

lemma validated_rule:
  assumes "validate_reminder rm = Inr ()"
  shows "\<exists>rule. spec_rule_of rm = Some rule \<and> integer_rule_grammar rule"
proof -
  consider (count) n where "r_type rm \<in> {''minutes_before'', ''hours_before'', ''days_before''}"
      "py_int (r_value rm) = Inr n"
    | (on_day) t where "r_type rm = ''time_on_day''" "strptime_HM (r_value rm) = Inr t"
    | (before) a b d n t where "r_type rm = ''time_before''"
      "split_char CHR '':'' (r_value rm) = [a, b, d]" "py_int a = Inr n"
      "strptime_HM (b @ CHR '':'' # d) = Inr t"
  proof -
    show thesis
    proof (cases "r_type rm \<in> {''minutes_before'', ''hours_before'', ''days_before''}")
      case True
      with assms count show ?thesis
        by (auto simp: validate_reminder_def Let_def split: sum.splits)
    next
      case nc: False
      show ?thesis
      proof (cases "r_type rm = ''time_on_day''")
        case True
        with assms nc on_day show ?thesis
          by (auto simp: validate_reminder_def Let_def split: sum.splits)
      next
        case False
        with assms nc have tb: "r_type rm = ''time_before''"
          and len: "length (split_char CHR '':'' (r_value rm)) = 3"
          by (auto simp: validate_reminder_def Let_def split: if_splits)
        from len obtain a b d where s: "split_char CHR '':'' (r_value rm) = [a, b, d]"
          by (auto simp: length_Suc_conv numeral_3_eq_3)
        with assms nc False tb before show ?thesis
          by (auto simp: validate_reminder_def Let_def split: sum.splits if_splits)
      qed
    qed
  qed
  then show ?thesis
  proof cases
    case count
    then show ?thesis by (auto simp: spec_rule_of_def)
  next
    case on_day
    with strptime_HM_sound [OF on_day(2)] show ?thesis by (simp add: spec_rule_of_def)
  next
    case before
    from split_first_of_three [OF before(2)] before strptime_HM_sound [OF before(4)]
    show ?thesis by (simp add: spec_rule_of_def)
  qed
qed

section \<open>Stored reminder rules\<close>

lemma list_all_update:
  "list_all P al \<Longrightarrow> P (k, v) \<Longrightarrow> list_all P (AList.update k v al)"
  by (induction al) auto

lemma get_user_data_satisfies:
  assumes "stored_rules_satisfy G st" and "get_user_data st user_id = (u, st1)"
  shows "list_all (reminder_satisfies G) (reminders u)" and "stored_rules_satisfy G st1"
proof -
  show "list_all (reminder_satisfies G) (reminders u)"
  proof (cases "map_of (users_data st) user_id")
    case None
    with assms(2) show ?thesis by (auto simp: get_user_data_def new_user_data_def)
  next
    case (Some u')
    with assms(2) have "u' = u" by (simp add: get_user_data_def)
    with Some have "(user_id, u) \<in> set (users_data st)" by (auto dest: map_of_SomeD)
    with assms(1) show ?thesis
      by (auto simp: stored_rules_satisfy_def list_all_iff)
  qed
  show "stored_rules_satisfy G st1"
  proof (cases "map_of (users_data st) user_id")
    case None
    with assms(2) have "st1 = st\<lparr>users_data := AList.update user_id new_user_data (users_data st)\<rparr>"
      by (auto simp: get_user_data_def)
    with assms(1) show ?thesis
      by (simp add: stored_rules_satisfy_def list_all_update new_user_data_def)
  next
    case (Some u')
    with assms show ?thesis by (simp add: get_user_data_def)
  qed
qed

lemma reminders_of_get_user_data:
  "reminders (fst (get_user_data st user_id)) = reminders_of st user_id"
  "reminders_of (snd (get_user_data st user_id)) v = reminders_of st v"
  by (simp_all add: get_user_data_def reminders_of_def new_user_data_def update_conv'
      split: option.splits)

lemma reminders_of_put_user_data:
  "reminders_of (put_user_data st user_id u) user_id = reminders u"
  by (simp add: reminders_of_def put_user_data_def update_conv')

text \<open>
  C7, as amended. When every stored reminder has a rule of its kind's grammar, with any
  integer (also a negative one) where the grammar has a count: for every subscriber and
  all arguments, \<^verbatim>\<open>add_reminder\<close> returns, every stored reminder still has such a rule,
  the reminder is appended to the subscriber's list when there are two arguments and
  \<^verbatim>\<open>validate_reminder\<close> accepts them, and otherwise nobody's list changes.
\<close>

theorem add_reminder_keeps_grammar:
  assumes "stored_rules_satisfy integer_rule_grammar st"
  shows "\<exists>st' rep. add_reminder st user_id args = Inr (st', rep) \<and>
           stored_rules_satisfy integer_rule_grammar st' \<and>
           (2 \<le> length args \<and> validate_reminder \<lparr>r_type = args ! 0, r_value = args ! 1\<rparr> = Inr ()
              \<longrightarrow> reminders_of st' user_id
                    = reminders_of st user_id @ [\<lparr>r_type = args ! 0, r_value = args ! 1\<rparr>]) \<and>
           (\<not> (2 \<le> length args \<and> validate_reminder \<lparr>r_type = args ! 0, r_value = args ! 1\<rparr> = Inr ())
              \<longrightarrow> (\<forall>v. reminders_of st' v = reminders_of st v))"
proof (cases "length args < 2")
  case True
  with assms show ?thesis by (simp add: add_reminder_def)
next
  case False
  let ?rm = "\<lparr>r_type = args ! 0, r_value = args ! 1\<rparr>"
  obtain u st1 where g: "get_user_data st user_id = (u, st1)" by (cases "get_user_data st user_id")
  note s = get_user_data_satisfies [OF assms g]
  from g have r: "reminders u = reminders_of st user_id" "\<And>v. reminders_of st1 v = reminders_of st v"
    using reminders_of_get_user_data [of st user_id] by simp_all
  show ?thesis
  proof (cases "validate_reminder ?rm")
    case (Inl e)
    then have "e = ValueError" by (rule validate_reminder_ValueError)
    with Inl False g s r show ?thesis
      by (simp add: add_reminder_def)
  next
    case (Inr x)
    then have v: "validate_reminder ?rm = Inr ()" by simp
    from validated_rule [OF v] have ok: "reminder_satisfies integer_rule_grammar ?rm"
      by (auto simp: reminder_satisfies_def)
    have "stored_rules_satisfy integer_rule_grammar
            (put_user_data st1 user_id (u\<lparr>reminders := reminders u @ [?rm]\<rparr>))"
      using s ok by (simp add: stored_rules_satisfy_def put_user_data_def list_all_update)
    with v False g r show ?thesis
      by (simp add: add_reminder_def reminders_of_put_user_data)
  qed
qed

text \<open>
  On the empty bot: \<^verbatim>\<open>time_before 1:18:00\<close> is stored, \<^verbatim>\<open>time_on_day 24:00\<close> is not.
\<close>

theorem add_reminder_keeps_grammar_witness:
  "stored_rules_satisfy integer_rule_grammar empty_bot \<and>
   (\<exists>st' rep. add_reminder empty_bot ''7'' [''time_before'', ''1:18:00''] = Inr (st', rep) \<and>
      stored_rules_satisfy integer_rule_grammar st' \<and>
      reminders_of st' ''7'' = [\<lparr>r_type = ''time_before'', r_value = ''1:18:00''\<rparr>]) \<and>
   (\<exists>st' rep. add_reminder empty_bot ''7'' [''time_on_day'', ''24:00''] = Inr (st', rep) \<and>
      stored_rules_satisfy integer_rule_grammar st' \<and> reminders_of st' ''7'' = [])"
proof -
  have e: "stored_rules_satisfy integer_rule_grammar empty_bot"
    by (simp add: stored_rules_satisfy_def empty_bot_def)
  have v: "validate_reminder \<lparr>r_type = ''time_before'', r_value = ''1:18:00''\<rparr> = Inr ()"
    "validate_reminder \<lparr>r_type = ''time_on_day'', r_value = ''24:00''\<rparr> \<noteq> Inr ()"
    by code_simp+
  have r: "reminders_of empty_bot v = []" for v
    by (simp add: reminders_of_def empty_bot_def)
  from add_reminder_keeps_grammar [OF e, of "''7''" "[''time_before'', ''1:18:00'']"]
    add_reminder_keeps_grammar [OF e, of "''7''" "[''time_on_day'', ''24:00'']"] e v r
  show ?thesis by auto
qed

text \<open>
  C7 as stated asks for non-negative counts. \<^verbatim>\<open>int\<close> accepts a sign, so
  \<^verbatim>\<open>/add_reminder minutes_before -5\<close> is accepted and stored: the empty bot satisfies the
  specification's grammar and the bot after the command does not.
\<close>

theorem negative_count_is_stored:
  "add_reminder empty_bot ''7'' [''minutes_before'', ''-5'']
     = Inr (minus_five_bot, ReminderAdded ''minutes_before'' ''-5'') \<and>
   spec_rule_of \<lparr>r_type = ''minutes_before'', r_value = ''-5''\<rparr> = Some (MinutesBefore (- 5)) \<and>
   stored_rules_satisfy spec_rule_grammar empty_bot \<and>
   \<not> stored_rules_satisfy spec_rule_grammar minus_five_bot"
  by code_simp

section \<open>NextOccurrence\<close>

subsection \<open>The birthdays \<^verbatim>\<open>strptime\<close> accepts\<close>

lemma re_m_sound:
  assumes "(ms, r) \<in> set (re_m s)"
  shows "s = ms @ r \<and> CHR ''-'' \<notin> set ms \<and> (\<exists>v. py_int ms = Inr v \<and> 1 \<le> v \<and> v \<le> 12)"
  using assms
  by (auto simp: re_m_def digit_in_def py_int_one_digit py_int_two_digits
      is_digit_def digit_val_def split: list.splits if_splits)

lemma re_d_sound:
  assumes "(ds, r) \<in> set (re_d s)"
  shows "s = ds @ r \<and> CHR ''-'' \<notin> set ds \<and> (\<exists>v. py_int ds = Inr v \<and> 1 \<le> v \<and> v \<le> 31)"
  using assms
  by (auto simp: re_d_def digit_in_def py_int_one_digit py_int_two_digits py_int_space_digit
      is_digit_def digit_val_def split: list.splits if_splits)

lemma re_lit_sound: "r1 \<in> set (re_lit c r) \<Longrightarrow> r = c # r1"
  by (auto simp: re_lit_def split: list.splits if_splits)

lemma split_char_none: "c \<notin> set b \<Longrightarrow> split_char c b = [b]"
  by (induction b) (auto simp: Let_def)

lemma split_char_two: "c \<notin> set a \<Longrightarrow> c \<notin> set b \<Longrightarrow> split_char c (a @ c # b) = [a, b]"
  by (induction a) (auto simp: Let_def split_char_none)

text \<open>
  A birthday \<^verbatim>\<open>strptime\<close> accepts splits at its hyphen into two parts that \<^verbatim>\<open>int\<close> reads
  as the month and the day \<^verbatim>\<open>strptime\<close> found, and that month and day are a date of 1900.
\<close>

lemma strptime_md_parts:
  assumes "strptime_md s = Inr (m, d)"
  shows "map py_int (split_char CHR ''-'' s) = [Inr m, Inr d] \<and>
         (\<exists>x. mk_date 1900 m d = Inr x)"
proof -
  define L where "L = [(m, d, r2). (m, r) \<leftarrow> re_m s, r1 \<leftarrow> re_lit CHR ''-'' r, (d, r2) \<leftarrow> re_d r1]"
  from assms obtain ms ds rest x where L: "L = (ms, ds, []) # rest"
    and v: "py_int ms = Inr m" "py_int ds = Inr d" "mk_date 1900 m d = Inr x"
    unfolding strptime_md_def L_def [symmetric]
    by (auto split: list.splits if_splits sum.splits)
  from L have "(ms, ds, []) \<in> set L" by simp
  then obtain r r1 where "(ms, r) \<in> set (re_m s)" "r1 \<in> set (re_lit CHR ''-'' r)"
    "(ds, []) \<in> set (re_d r1)"
    unfolding L_def by auto
  with re_m_sound [of ms r s] re_lit_sound [of r1 "CHR ''-''" r] re_d_sound [of ds "[]" r1]
  have "s = ms @ CHR ''-'' # ds" "CHR ''-'' \<notin> set ms" "CHR ''-'' \<notin> set ds" by auto
  with v show ?thesis by (auto simp: split_char_two)
qed

text \<open>A date of 1900, a common year, is a date of every year.\<close>

lemma is_leap_1900 [simp]: "\<not> is_leap 1900"
  by (simp add: is_leap_def)

lemma days_in_month_common_le: "days_in_month_common m \<le> days_in_month y m"
  by (simp add: days_in_month_def days_in_month_common_def)

lemma mk_date_every_year:
  assumes "mk_date 1900 m d = Inr x" and "1 \<le> y" and "y \<le> 9999"
  shows "mk_date y m d = Inr \<lparr>year = y, month = m, day = d\<rparr>"
proof -
  from assms(1) have r: "1 \<le> m" "m \<le> 12" "1 \<le> d" "d \<le> days_in_month 1900 m"
    by (auto simp: mk_date_def split: if_splits)
  from r(4) have "d \<le> days_in_month_common m"
    by (simp add: days_in_month_def)
  with days_in_month_common_le [of m y] have "d \<le> days_in_month y m" by simp
  with r assms(2,3) show ?thesis by (simp add: mk_date_def)
qed


text \<open>
  What \<^verbatim>\<open>get_next_birthday_date\<close> returns on an accepted birthday while next year is
  still a year of the calendar.
\<close>

lemma get_next_birthday_date_value:
  assumes "strptime_md birthday_str = Inr (m, d)"
    and "1 \<le> year (date_of now)" and "year (date_of now) \<le> 9998"
  shows "get_next_birthday_date now birthday_str =
           Inr (if date_less \<lparr>year = year (date_of now), month = m, day = d\<rparr> (date_of now)
                then \<lparr>year = year (date_of now) + 1, month = m, day = d\<rparr>
                else \<lparr>year = year (date_of now), month = m, day = d\<rparr>)"
proof -
  let ?cy = "year (date_of now)"
  from strptime_md_parts [OF assms(1)] obtain x where
    p: "map py_int (split_char CHR ''-'' birthday_str) = [Inr m, Inr d]"
    and x: "mk_date 1900 m d = Inr x"
    by (elim conjE exE)
  from assms(2,3) have t: "mk_date ?cy m d = Inr \<lparr>year = ?cy, month = m, day = d\<rparr>"
    by (intro mk_date_every_year [OF x]) simp_all
  from assms(2,3) have n: "mk_date (?cy + 1) m d = Inr \<lparr>year = ?cy + 1, month = m, day = d\<rparr>"
    by (intro mk_date_every_year [OF x]) simp_all
  show ?thesis by (simp add: get_next_birthday_date_def p t n Let_def)
qed

text \<open>
  C2, as amended. For every birthday \<^verbatim>\<open>strptime\<close> accepts with the format \<^verbatim>\<open>%m-%d\<close>, read as
  month \<open>m\<close> and day \<open>d\<close>, and every fixed today in the years 1 to 9998:
  \<^verbatim>\<open>get_next_birthday_date\<close> returns a date with month \<open>m\<close> and day \<open>d\<close>, in this year or
  the next, not before today; it is this year's date exactly when that date is not
  strictly before today.
\<close>

theorem next_occurrence:
  assumes "strptime_md birthday_str = Inr (m, d)"
    and "1 \<le> year (date_of now)" and "year (date_of now) \<le> 9998"
  shows "\<exists>nb. get_next_birthday_date now birthday_str = Inr nb \<and>
           month nb = m \<and> day nb = d \<and>
           (year nb = year (date_of now) \<or> year nb = year (date_of now) + 1) \<and>
           date_le (date_of now) nb \<and>
           (year nb = year (date_of now) \<longleftrightarrow>
              \<not> date_less \<lparr>year = year (date_of now), month = m, day = d\<rparr> (date_of now))"
proof (cases "date_less \<lparr>year = year (date_of now), month = m, day = d\<rparr> (date_of now)")
  case True
  with get_next_birthday_date_value [OF assms]
  have "get_next_birthday_date now birthday_str
          = Inr \<lparr>year = year (date_of now) + 1, month = m, day = d\<rparr>"
    by simp
  with True show ?thesis by (simp add: date_le_def date_less_def)
next
  case False
  with get_next_birthday_date_value [OF assms]
  have "get_next_birthday_date now birthday_str
          = Inr \<lparr>year = year (date_of now), month = m, day = d\<rparr>"
    by simp
  with False show ?thesis by (simp add: date_le_def)
qed

text \<open>
  Birthday 03-15: on 16 March 2024 the next occurrence is 15 March 2025, and on
  15 March 2024 it is that very day.
\<close>

theorem next_occurrence_witness:
  "strptime_md ''03-15'' = Inr (3, 15) \<and>
   get_next_birthday_date (combine \<lparr>year = 2024, month = 3, day = 16\<rparr> (mk_time 0 0)) ''03-15''
     = Inr \<lparr>year = 2025, month = 3, day = 15\<rparr> \<and>
   get_next_birthday_date (combine \<lparr>year = 2024, month = 3, day = 15\<rparr> (mk_time 0 0)) ''03-15''
     = Inr \<lparr>year = 2024, month = 3, day = 15\<rparr>"
proof -
  have s: "strptime_md ''03-15'' = Inr (3, 15)" by code_simp
  from next_occurrence [OF s, of "combine \<lparr>year = 2024, month = 3, day = 16\<rparr> (mk_time 0 0)"]
    next_occurrence [OF s, of "combine \<lparr>year = 2024, month = 3, day = 15\<rparr> (mk_time 0 0)"]
  have "get_next_birthday_date (combine \<lparr>year = 2024, month = 3, day = 16\<rparr> (mk_time 0 0)) ''03-15''
     = Inr \<lparr>year = 2025, month = 3, day = 15\<rparr>"
    and "get_next_birthday_date (combine \<lparr>year = 2024, month = 3, day = 15\<rparr> (mk_time 0 0)) ''03-15''
     = Inr \<lparr>year = 2024, month = 3, day = 15\<rparr>"
    by (auto simp: combine_def date_less_def)
  with s show ?thesis by simp
qed

text \<open>
  C2 as stated has every fixed today. On 31 December 9999 the accepted birthday 01-01 has
  passed, next year is 10000, and \<^verbatim>\<open>datetime(10000, 1, 1)\<close> is a \<^verbatim>\<open>ValueError\<close>.
\<close>

theorem next_occurrence_raises:
  "strptime_md ''01-01'' = Inr (1, 1) \<and>
   get_next_birthday_date
     (combine \<lparr>year = 9999, month = 12, day = 31\<rparr> (mk_time 0 0)) ''01-01'' = Inl ValueError"
  by code_simp

subsection \<open>The leap day\<close>

text \<open>
  \<^verbatim>\<open>get_next_birthday_date\<close> is called on stored birthdays only, and a birthday is stored
  by \<^verbatim>\<open>add_birthday\<close> only, after \<^verbatim>\<open>strptime\<close> has accepted it. So every stored birthday
  is an accepted one: this holds of a bot with no subscriber and every handler keeps it.
\<close>

lemma accepted_date_iff: "accepted_date s \<longleftrightarrow> (\<exists>m d. strptime_md s = Inr (m, d))"
  by (auto simp: accepted_date_def split: sum.splits)


lemma stored_birthdays_accepted_iff:
  "stored_birthdays_accepted st \<longleftrightarrow>
     (\<forall>uid u name date_str. (uid, u) \<in> set (users_data st) \<longrightarrow>
        (name, date_str) \<in> set (birthdays u) \<longrightarrow> accepted_date date_str)"
  by (fastforce simp: stored_birthdays_accepted_def list_all_iff)

lemma set_update_subset: "set (AList.update k v al) \<subseteq> insert (k, v) (set al)"
  by (induction al) auto


lemma get_user_data_accepted:
  assumes "stored_birthdays_accepted st"
  shows "stored_birthdays_accepted (snd (get_user_data st user_id))"
    and "list_all (\<lambda>(name, date_str). accepted_date date_str)
           (birthdays (fst (get_user_data st user_id)))"
proof -
  show "stored_birthdays_accepted (snd (get_user_data st user_id))"
  proof (cases "map_of (users_data st) user_id")
    case None
    have "set (AList.update user_id new_user_data (users_data st))
            \<subseteq> insert (user_id, new_user_data) (set (users_data st))"
      by (rule set_update_subset)
    with assms None show ?thesis
      by (fastforce simp: get_user_data_def stored_birthdays_accepted_iff new_user_data_def)
  next
    case (Some u)
    with assms show ?thesis by (simp add: get_user_data_def)
  qed
  show "list_all (\<lambda>(name, date_str). accepted_date date_str)
          (birthdays (fst (get_user_data st user_id)))"
  proof (cases "map_of (users_data st) user_id")
    case None
    then show ?thesis by (simp add: get_user_data_def new_user_data_def)
  next
    case (Some u)
    then have "(user_id, u) \<in> set (users_data st)" by (rule map_of_SomeD)
    with assms Some show ?thesis
      by (auto simp: get_user_data_def stored_birthdays_accepted_iff list_all_iff)
  qed
qed

lemma put_user_data_accepted:
  assumes "stored_birthdays_accepted st"
    and "list_all (\<lambda>(name, date_str). accepted_date date_str) (birthdays u)"
  shows "stored_birthdays_accepted (put_user_data st user_id u)"
proof -
  have "set (AList.update user_id u (users_data st)) \<subseteq> insert (user_id, u) (set (users_data st))"
    by (rule set_update_subset)
  with assms show ?thesis
    by (fastforce simp: put_user_data_def stored_birthdays_accepted_iff list_all_iff)
qed






lemma pending_update_accepted [simp]:
  "stored_birthdays_accepted (st\<lparr>pending_endpoints := p\<rparr>) = stored_birthdays_accepted st"
  by (simp add: stored_birthdays_accepted_def)

lemma no_subscriber_accepted: "users_data st = [] \<Longrightarrow> stored_birthdays_accepted st"
  by (simp add: stored_birthdays_accepted_def)

lemma add_reminder_accepted:
  assumes "stored_birthdays_accepted st" and "add_reminder st user_id args = Inr (st', r)"
  shows "stored_birthdays_accepted st'"
proof (cases "length args < 2")
  case True
  with assms show ?thesis by (simp add: add_reminder_def)
next
  case False
  obtain u st1 where g: "get_user_data st user_id = (u, st1)" by (cases "get_user_data st user_id")
  from get_user_data_accepted [OF assms(1), of user_id] g
  have st1: "stored_birthdays_accepted st1"
    and u: "list_all (\<lambda>(name, date_str). accepted_date date_str) (birthdays u)" by simp_all
  from u have "list_all (\<lambda>(name, date_str). accepted_date date_str)
                 (birthdays (u\<lparr>reminders := reminders u @ [\<lparr>r_type = args ! 0, r_value = args ! 1\<rparr>]\<rparr>))"
    by simp
  from put_user_data_accepted [OF st1 this, of user_id] assms(2) False g st1
  show ?thesis by (auto simp: add_reminder_def Let_def split: sum.splits if_splits)
qed

lemma add_endpoint_accepted:
  assumes "stored_birthdays_accepted st"
  shows "stored_birthdays_accepted (fst (add_endpoint ev st user_id args))"
proof -
  obtain u st1 where g: "get_user_data st user_id = (u, st1)" by (cases "get_user_data st user_id")
  from get_user_data_accepted [OF assms(1), of user_id] g
  have st1: "stored_birthdays_accepted st1" by simp
  with assms g show ?thesis
    by (auto simp: add_endpoint_def Let_def split: notify_outcome.splits)
qed

lemma handle_callback_accepted:
  assumes "stored_birthdays_accepted st" and "handle_callback st user_id chat_id data = Inr (st', r)"
  shows "stored_birthdays_accepted st'"
proof -
  obtain u st1 where g: "get_user_data st user_id = (u, st1)" by (cases "get_user_data st user_id")
  from get_user_data_accepted [OF assms(1), of user_id] g
  have st1: "stored_birthdays_accepted st1"
    and u: "list_all (\<lambda>(name, date_str). accepted_date date_str) (birthdays u)" by simp_all
  from u have "\<And>eps. list_all (\<lambda>(name, date_str). accepted_date date_str)
                 (birthdays (u\<lparr>apprise_endpoints := eps\<rparr>))"
    by simp
  from put_user_data_accepted [OF st1 this, of user_id] assms g st1
  show ?thesis
    by (auto simp: handle_callback_def Let_def split: sum.splits if_splits option.splits)
qed




section \<open>A tick when an occurrence date cannot be computed\<close>

text \<open>
  \<^verbatim>\<open>check_birthdays\<close> calls \<^verbatim>\<open>get_next_birthday_date\<close> before it enters the \<^verbatim>\<open>try\<close> block, so
  an exception of that call ends the tick. While the clock's year is between 1 and 9998
  there is no such exception on stored birthdays, and the tick goes through every
  subscriber.
\<close>

lemma check_user_birthdays_completes:
  assumes "list_all (\<lambda>(name, date_str). accepted_date date_str) bs"
    and "1 \<le> year (date_of now)" and "year (date_of now) \<le> 9998"
  shows "snd (snd (check_user_birthdays ev now current_time user_id timezone_str rms bs st)) = None"
  using assms(1)
proof (induction bs arbitrary: st)
  case Nil
  show ?case by simp
next
  case (Cons b bs)
  obtain name date_str where b: "b = (name, date_str)" by (cases b)
  with Cons.prems obtain m d where "strptime_md date_str = Inr (m, d)"
    by (auto simp: accepted_date_iff)
  from get_next_birthday_date_value [OF this assms(2,3)] obtain nb
    where nb: "get_next_birthday_date now date_str = Inr nb" by simp
  from Cons.prems have "list_all (\<lambda>(name, date_str). accepted_date date_str) bs" by simp
  from Cons.IH [OF this] b nb show ?case by (simp add: split_beta)
qed

lemma check_users_completes:
  assumes "list_all (\<lambda>(user_id, u). list_all (\<lambda>(name, date_str). accepted_date date_str)
             (birthdays u)) us"
    and "1 \<le> year (date_of now)" and "year (date_of now) \<le> 9998"
  shows "snd (snd (check_users ev now current_time us st)) = None"
  using assms(1)
proof (induction us arbitrary: st)
  case Nil
  show ?case by simp
next
  case (Cons p us)
  obtain user_id u where p: "p = (user_id, u)" by (cases p)
  from Cons.prems p have u: "list_all (\<lambda>(name, date_str). accepted_date date_str) (birthdays u)"
    and us: "list_all (\<lambda>(user_id, u). list_all (\<lambda>(name, date_str). accepted_date date_str)
             (birthdays u)) us"
    by simp_all
  obtain evs1 st1 err where c: "check_user_birthdays ev now current_time user_id (timezone u)
      (reminders u) (birthdays u) st = (evs1, st1, err)"
    by (cases "check_user_birthdays ev now current_time user_id (timezone u)
      (reminders u) (birthdays u) st")
  from check_user_birthdays_completes [OF u assms(2,3),
      of ev current_time user_id "timezone u" "reminders u" st] c
  have "err = None" by simp
  with Cons.IH [OF us] p c show ?case by (simp add: split_beta)
qed

lemma tick_completes:
  assumes "stored_birthdays_accepted st"
    and "1 \<le> year (date_of now)" and "year (date_of now) \<le> 9998"
  shows "snd (snd (check_birthdays ev now current_time st)) = None"
  using assms check_users_completes [of "users_data st" now]
  by (simp add: check_birthdays_def stored_birthdays_accepted_def)

text \<open>
  C4. The claim: a failure while computing the occurrence date, computing the reminder
  instant or dispatching for one unit never aborts the rest of the tick. For the
  occurrence date the code does abort. Subscriber 1 stores the birthday 01-01 and a
  reminder, subscriber 2 the birthday 12-31, a reminder one day before and an endpoint
  they confirm: these six commands lead from the empty bot to the state of the first
  equation. At the tick of 30 December 9999, 09:00:00, the birthday of subscriber 1 has
  passed and \<^verbatim>\<open>datetime(10000, 1, 1)\<close> raises \<^verbatim>\<open>ValueError\<close> outside the \<^verbatim>\<open>try\<close> block: the
  tick ends with that exception and nothing is sent, while the reminder of subscriber 2
  is due at this very tick and is sent when subscriber 2 is alone.
\<close>

theorem occurrence_failure_aborts_tick:
  "and_then (and_then (and_then (and_then (and_then
     (add_birthday empty_bot ''1'' [''Neo'', ''01-01''])
     (\<lambda>st. add_reminder st ''1'' [''time_on_day'', ''09:00'']))
     (\<lambda>st. add_birthday st ''2'' [''Eve'', ''12-31'']))
     (\<lambda>st. add_reminder st ''2'' [''days_before'', ''1'']))
     (\<lambda>st. Inr (add_endpoint succeeding_env st ''2'' [''mailto://b''])))
     (\<lambda>st. handle_callback st ''2'' 2 ''confirm_endpoint_yes'')
     = Inr (neo_then_eve_bot, EndpointAdded ''mailto://b'' 2) \<and>
   check_birthdays succeeding_env tick_9999_12_30 tick_9999_12_30 neo_then_eve_bot
     = ([], neo_then_eve_bot, Some ValueError) \<and>
   check_birthdays succeeding_env tick_9999_12_30 tick_9999_12_30 eve_bot
     = ([eve_notification], eve_bot, None)"
  by code_simp

section \<open>ReminderInstant\<close>

subsection \<open>Datetime arithmetic on the time line\<close>

lemma time_us_time_of_us: "time_us (time_of_us u) = u"
proof -
  define h where "h = u div 3600000000"
  define r1 where "r1 = u mod 3600000000"
  define m where "m = r1 div 60000000"
  define r2 where "r2 = r1 mod 60000000"
  define s where "s = r2 div 1000000"
  define r3 where "r3 = r2 mod 1000000"
  have a: "u = 3600000000 * h + r1" by (simp add: h_def r1_def)
  have b: "r1 = 60000000 * m + r2" by (simp add: m_def r2_def)
  have c: "r2 = 1000000 * s + r3" by (simp add: s_def r3_def)
  have r2': "r2 = u mod 60000000"
    unfolding r2_def r1_def by (rule mod_mod_cancel) simp
  have r3': "r3 = u mod 1000000"
    unfolding r3_def r2' by (rule mod_mod_cancel) simp
  have "time_of_us u = \<lparr>hour = h, minute = m, second = s, microsecond = r3\<rparr>"
    unfolding time_of_us_def h_def m_def s_def r3' r2' r1_def by (rule refl)
  then have "time_us (time_of_us u) = ((h * 60 + m) * 60 + s) * 1000000 + r3"
    by (simp add: time_us_def)
  also have "\<dots> = 3600000000 * h + (60000000 * m + (1000000 * s + r3))"
    by (simp add: algebra_simps)
  also from a b c have "\<dots> = u" by simp
  finally show ?thesis .
qed

lemma timestamp_us_combine:
  "timestamp_us (combine d t) = toordinal d * us_per_day + time_us t"
  by (simp add: timestamp_us_def combine_def)

lemma div_us_per_day_bounds:
  assumes "lo * us_per_day \<le> x" and "x < hi * us_per_day"
  shows "lo \<le> x div us_per_day" and "x div us_per_day < hi"
proof -
  define q where "q = x div 86400000000"
  define r where "r = x mod 86400000000"
  have x: "x = 86400000000 * q + r" "0 \<le> r" "r < 86400000000"
    by (simp_all add: q_def r_def)
  from assms have "lo * 86400000000 \<le> x" "x < hi * 86400000000"
    by (simp_all add: us_per_day_def)
  with x have "lo \<le> q" "q < hi" by linarith+
  then show "lo \<le> x div us_per_day" and "x div us_per_day < hi"
    by (simp_all add: q_def us_per_day_def)
qed

lemma us_per_day_split: "x = us_per_day * (x div us_per_day) + x mod us_per_day"
  "0 \<le> x mod us_per_day" "x mod us_per_day < us_per_day"
  by (simp_all add: us_per_day_def)

lemma representable_iff:
  "representable x \<longleftrightarrow> 0 < x div us_per_day \<and> x div us_per_day \<le> MAXORDINAL"
proof
  assume "representable x"
  then have "1 * us_per_day \<le> x" "x < (MAXORDINAL + 1) * us_per_day"
    by (simp_all add: representable_def)
  from div_us_per_day_bounds [OF this] show "0 < x div us_per_day \<and> x div us_per_day \<le> MAXORDINAL"
    by simp
next
  define q where "q = x div 86400000000"
  define r where "r = x mod 86400000000"
  have x: "x = 86400000000 * q + r" "0 \<le> r" "r < 86400000000"
    by (simp_all add: q_def r_def)
  assume "0 < x div us_per_day \<and> x div us_per_day \<le> MAXORDINAL"
  then have "0 < q" "q \<le> 3652059" by (simp_all add: q_def us_per_day_def MAXORDINAL_def)
  with x have "86400000000 \<le> x" "x < 3652060 * 86400000000" by linarith+
  then show "representable x" by (simp add: representable_def us_per_day_def MAXORDINAL_def)
qed

text \<open>
  Subtracting a duration moves a datetime by exactly that duration on the time line, and
  it succeeds exactly when the result is a reading a datetime can hold.
\<close>

lemma datetime_sub_timestamp:
  assumes "datetime_sub dt delta = Inr u"
  shows "timestamp_us u = timestamp_us dt - delta"
proof -
  define total where "total = timestamp_us dt - delta"
  from assms have u: "u = combine (fromordinal (total div us_per_day))
                           (time_of_us (total mod us_per_day))"
    by (simp add: datetime_sub_def Let_def total_def split: if_splits)
  have "timestamp_us u = total div us_per_day * us_per_day + total mod us_per_day"
    unfolding u by (simp add: timestamp_us_combine toordinal_fromordinal time_us_time_of_us)
  also have "\<dots> = total" by simp
  finally show ?thesis by (simp add: total_def)
qed

lemma datetime_sub_returns:
  "(\<exists>u. datetime_sub dt delta = Inr u) \<longleftrightarrow> representable (timestamp_us dt - delta)"
  by (simp add: datetime_sub_def Let_def representable_iff)

lemma datetime_sub_OverflowError: "datetime_sub dt delta = Inl e \<Longrightarrow> e = OverflowError"
  by (simp add: datetime_sub_def Let_def split: if_splits)

lemma date_sub_toordinal:
  assumes "date_sub d delta = Inr d'"
  shows "toordinal d' = toordinal d - delta div us_per_day"
  using assms by (auto simp: date_sub_def Let_def toordinal_fromordinal split: if_splits)

lemma date_sub_returns:
  "(\<exists>d'. date_sub d delta = Inr d') \<longleftrightarrow>
     0 < toordinal d - delta div us_per_day \<and> toordinal d - delta div us_per_day \<le> MAXORDINAL"
  by (simp add: date_sub_def Let_def)

lemma date_sub_OverflowError: "date_sub d delta = Inl e \<Longrightarrow> e = OverflowError"
  by (simp add: date_sub_def Let_def split: if_splits)

lemma timedelta_value: "timedelta x = Inr delta \<Longrightarrow> delta = x"
  by (simp add: timedelta_def split: if_splits)

lemma timedelta_OverflowError: "timedelta x = Inl e \<Longrightarrow> e = OverflowError"
  by (simp add: timedelta_def split: if_splits)

lemma timedelta_returns:
  assumes "- (999999999 * us_per_day) \<le> x" and "x < 999999999 * us_per_day"
  shows "timedelta x = Inr x"
proof -
  from assms have "(- 999999999) * us_per_day \<le> x" "x < 999999999 * us_per_day" by simp_all
  from div_us_per_day_bounds [OF this] show ?thesis by (simp add: timedelta_def)
qed

lemma days_div [simp]: "n * us_per_day div us_per_day = n"
  by (simp add: us_per_day_def)

lemma datetime_sub_cases:
  "if representable (timestamp_us dt - delta) then \<exists>u. datetime_sub dt delta = Inr u
   else datetime_sub dt delta = Inl OverflowError"
  by (simp add: datetime_sub_def Let_def representable_iff)

lemma date_sub_cases:
  "if 0 < toordinal d - delta div us_per_day \<and> toordinal d - delta div us_per_day \<le> MAXORDINAL
   then \<exists>d'. date_sub d delta = Inr d' else date_sub d delta = Inl OverflowError"
  by (simp add: date_sub_def Let_def)

lemma timedelta_cases: "timedelta x = Inr x \<or> timedelta x = Inl OverflowError"
  by (simp add: timedelta_def)

lemma day_and_time_div:
  assumes "0 \<le> t" and "t < us_per_day"
  shows "(n * us_per_day + t) div us_per_day = n"
  by (rule int_div_pos_eq [where r = t]) (use assms in \<open>simp_all add: us_per_day_def\<close>)

lemma representable_day_and_time:
  assumes "0 \<le> t" and "t < us_per_day"
  shows "representable (n * us_per_day + t) \<longleftrightarrow> 0 < n \<and> n \<le> MAXORDINAL"
  by (simp add: representable_iff day_and_time_div [OF assms])

lemma timedelta_of_representable:
  assumes "representable (n * us_per_day - x)" and "1 \<le> n" and "n \<le> MAXORDINAL"
  shows "timedelta x = Inr x"
proof -
  from assms have "86400000000 \<le> n * 86400000000 - x" "n * 86400000000 - x < 3652060 * 86400000000"
    "1 \<le> n" "n \<le> 3652059"
    by (simp_all add: representable_def us_per_day_def MAXORDINAL_def)
  then have "- (999999999 * 86400000000) \<le> x" "x < 999999999 * 86400000000" by linarith+
  then show ?thesis by (intro timedelta_returns) (simp_all add: us_per_day_def)
qed

lemma timedelta_days_of_range:
  assumes "0 < n - k" and "n - k \<le> MAXORDINAL" and "1 \<le> n" and "n \<le> MAXORDINAL"
  shows "timedelta_days k = Inr (k * us_per_day)"
proof -
  from assms have "- 999999999 \<le> k" "k < 999999999" by (simp_all add: MAXORDINAL_def)
  then have "- (999999999 * us_per_day) \<le> k * us_per_day" "k * us_per_day < 999999999 * us_per_day"
    by (simp_all add: us_per_day_def)
  then show ?thesis unfolding timedelta_days_def by (rule timedelta_returns)
qed

lemma spec_rule_of_cases:
  assumes "spec_rule_of rm = Some rule"
  obtains (minutes) n where "rule = MinutesBefore n" "r_type rm = ''minutes_before''"
      "py_int (r_value rm) = Inr n"
    | (hours) n where "rule = HoursBefore n" "r_type rm = ''hours_before''"
      "py_int (r_value rm) = Inr n"
    | (days) n where "rule = DaysBefore n" "r_type rm = ''days_before''"
      "py_int (r_value rm) = Inr n"
    | (on_day) t where "rule = TimeOnDay (hour t) (minute t)" "r_type rm = ''time_on_day''"
      "strptime_HM (r_value rm) = Inr t"
    | (before) dd hm n t where "rule = TimeBefore n (hour t) (minute t)"
      "r_type rm = ''time_before''" "split_first CHR '':'' (r_value rm) = [dd, hm]"
      "py_int dd = Inr n" "strptime_HM hm = Inr t"
  using assms
  by (auto simp: spec_rule_of_def split: if_splits sum.splits list.splits)

subsection \<open>The code against the mapping\<close>

lemma time_us_mk_time: "time_us (mk_time h m) = (h * 60 + m) * 60000000"
  by (simp add: time_us_def mk_time_def algebra_simps)

lemma strptime_HM_time_us:
  assumes "strptime_HM s = Inr t"
  shows "time_us t = (hour t * 60 + minute t) * 60000000"
    and "0 \<le> time_us t" and "time_us t < us_per_day"
proof -
  from strptime_HM_sound [OF assms] have v: "0 \<le> hour t" "hour t \<le> 23" "0 \<le> minute t"
    "minute t \<le> 59" "second t = 0" "microsecond t = 0"
    by (simp_all add: valid_hhmm_def)
  then show "time_us t = (hour t * 60 + minute t) * 60000000"
    by (simp add: time_us_def algebra_simps)
  with v show "0 \<le> time_us t" and "time_us t < us_per_day"
    by (simp_all add: us_per_day_def)
qed

text \<open>
  Whenever the code builds the naive local datetime, the reminder has a rule in the
  specification's wire format and the datetime is the rule's wall-clock reading.
\<close>

lemma reminder_datetime_timestamp:
  assumes "reminder_datetime d rm = Inr w"
  shows "\<exists>rule. spec_rule_of rm = Some rule \<and> timestamp_us w = spec_wall_clock d rule"
proof -
  consider (minutes) "r_type rm = ''minutes_before''" | (hours) "r_type rm = ''hours_before''"
    | (days) "r_type rm = ''days_before''" | (on_day) "r_type rm = ''time_on_day''"
    | (before) "r_type rm = ''time_before''"
    using assms by (auto simp: reminder_datetime_def Let_def split: if_splits)
  then show ?thesis
  proof cases
    case minutes
    with assms obtain n delta where n: "py_int (r_value rm) = Inr n"
      and t: "timedelta_minutes n = Inr delta"
      and s: "datetime_sub (combine d (mk_time 0 0)) delta = Inr w"
      by (auto simp: reminder_datetime_def Let_def split: sum.splits)
    from t have "delta = n * 60000000" by (auto simp: timedelta_minutes_def dest: timedelta_value)
    with datetime_sub_timestamp [OF s] minutes n show ?thesis
      by (simp add: spec_rule_of_def timestamp_us_combine time_us_mk_time)
  next
    case hours
    with assms obtain n delta where n: "py_int (r_value rm) = Inr n"
      and t: "timedelta_hours n = Inr delta"
      and s: "datetime_sub (combine d (mk_time 0 0)) delta = Inr w"
      by (auto simp: reminder_datetime_def Let_def split: sum.splits)
    from t have "delta = n * 3600000000" by (auto simp: timedelta_hours_def dest: timedelta_value)
    with datetime_sub_timestamp [OF s] hours n show ?thesis
      by (simp add: spec_rule_of_def timestamp_us_combine time_us_mk_time)
  next
    case days
    with assms obtain n delta target where n: "py_int (r_value rm) = Inr n"
      and t: "timedelta_days n = Inr delta"
      and s: "date_sub d delta = Inr target" and w: "w = combine target (mk_time 9 0)"
      by (auto simp: reminder_datetime_def Let_def split: sum.splits)
    from t have "delta = n * us_per_day" by (auto simp: timedelta_days_def dest: timedelta_value)
    with date_sub_toordinal [OF s] have "toordinal target = toordinal d - n" by simp
    with days n w show ?thesis
      by (simp add: spec_rule_of_def timestamp_us_combine time_us_mk_time)
  next
    case on_day
    with assms obtain t where t: "strptime_HM (r_value rm) = Inr t" and w: "w = combine d t"
      by (auto simp: reminder_datetime_def Let_def split: sum.splits)
    with on_day strptime_HM_time_us(1) [OF t] show ?thesis
      by (simp add: spec_rule_of_def timestamp_us_combine)
  next
    case before
    with assms obtain dd hm t n delta target where p: "split_first CHR '':'' (r_value rm) = [dd, hm]"
      and t: "strptime_HM hm = Inr t" and n: "py_int dd = Inr n"
      and td: "timedelta_days n = Inr delta"
      and s: "date_sub d delta = Inr target" and w: "w = combine target t"
      by (auto simp: reminder_datetime_def Let_def split: sum.splits list.splits)
    from td have "delta = n * us_per_day" by (auto simp: timedelta_days_def dest: timedelta_value)
    with date_sub_toordinal [OF s] have "toordinal target = toordinal d - n" by simp
    with before p t n w strptime_HM_time_us(1) [OF t] show ?thesis
      by (simp add: spec_rule_of_def timestamp_us_combine)
  qed
qed


lemma minus_from_midnight:
  assumes "1 \<le> toordinal d" and "toordinal d \<le> MAXORDINAL"
  shows "if representable (toordinal d * us_per_day - x)
         then \<exists>w. (case timedelta x of Inl e \<Rightarrow> Inl e
                    | Inr delta \<Rightarrow> datetime_sub (combine d (mk_time 0 0)) delta) = Inr w
         else (case timedelta x of Inl e \<Rightarrow> Inl e
                    | Inr delta \<Rightarrow> datetime_sub (combine d (mk_time 0 0)) delta)
              = Inl OverflowError"
proof -
  have ts: "timestamp_us (combine d (mk_time 0 0)) - x = toordinal d * us_per_day - x"
    by (simp add: timestamp_us_combine time_us_mk_time)
  show ?thesis
  proof (cases "representable (toordinal d * us_per_day - x)")
    case True
    from timedelta_of_representable [OF True assms] have "timedelta x = Inr x" .
    with True datetime_sub_cases [of "combine d (mk_time 0 0)" x] show ?thesis
      by (simp add: ts)
  next
    case False
    with timedelta_cases [of x] datetime_sub_cases [of "combine d (mk_time 0 0)" x]
    show ?thesis by (auto simp: ts)
  qed
qed

lemma days_back_at_time:
  assumes "1 \<le> toordinal d" and "toordinal d \<le> MAXORDINAL"
    and "0 \<le> time_us t" and "time_us t < us_per_day"
  shows "if representable ((toordinal d - n) * us_per_day + time_us t)
         then \<exists>w. (case timedelta_days n of Inl e \<Rightarrow> Inl e
                    | Inr delta \<Rightarrow>
                        (case date_sub d delta of Inl e \<Rightarrow> Inl e
                         | Inr target \<Rightarrow> Inr (combine target t))) = Inr w
         else (case timedelta_days n of Inl e \<Rightarrow> Inl e
                    | Inr delta \<Rightarrow>
                        (case date_sub d delta of Inl e \<Rightarrow> Inl e
                         | Inr target \<Rightarrow> Inr (combine target t))) = Inl OverflowError"
proof (cases "representable ((toordinal d - n) * us_per_day + time_us t)")
  case True
  then have r: "0 < toordinal d - n" "toordinal d - n \<le> MAXORDINAL"
    by (simp_all add: representable_day_and_time [OF assms(3,4)])
  from timedelta_days_of_range [OF r assms(1,2)] have "timedelta_days n = Inr (n * us_per_day)" .
  with True r date_sub_cases [of d "n * us_per_day"] show ?thesis by auto
next
  case False
  then have r: "\<not> (0 < toordinal d - n \<and> toordinal d - n \<le> MAXORDINAL)"
    by (simp add: representable_day_and_time [OF assms(3,4)])
  from timedelta_cases [of "n * us_per_day"]
  have "timedelta_days n = Inr (n * us_per_day) \<or> timedelta_days n = Inl OverflowError"
    by (simp add: timedelta_days_def)
  with False r date_sub_cases [of d "n * us_per_day"] show ?thesis by auto
qed

text \<open>
  For a reminder with a rule, the naive local datetime is built when the rule's
  wall-clock reading is representable, and \<^verbatim>\<open>OverflowError\<close> is raised when it is not.
\<close>

lemma reminder_datetime_cases:
  assumes "spec_rule_of rm = Some rule" and "1 \<le> toordinal d" and "toordinal d \<le> MAXORDINAL"
  shows "if representable (spec_wall_clock d rule) then \<exists>w. reminder_datetime d rm = Inr w
         else reminder_datetime d rm = Inl OverflowError"
  using assms(1)
proof (cases rule: spec_rule_of_cases)
  case (minutes n)
  with minus_from_midnight [OF assms(2,3), of "n * 60000000"] show ?thesis
    by (simp add: reminder_datetime_def timedelta_minutes_def)
next
  case (hours n)
  with minus_from_midnight [OF assms(2,3), of "n * 3600000000"] show ?thesis
    by (simp add: reminder_datetime_def timedelta_hours_def)
next
  case (days n)
  have "0 \<le> time_us (mk_time 9 0)" "time_us (mk_time 9 0) < us_per_day"
    by (simp_all add: time_us_mk_time us_per_day_def)
  from days_back_at_time [OF assms(2,3) this, of n] days show ?thesis
    by (simp add: reminder_datetime_def time_us_mk_time)
next
  case (on_day t)
  note t = strptime_HM_time_us [OF on_day(3)]
  from assms(2,3) have "representable (toordinal d * us_per_day + time_us t)"
    by (simp add: representable_day_and_time [OF t(2,3)])
  with on_day t(1) show ?thesis
    by (simp add: reminder_datetime_def)
next
  case (before dd hm n t)
  note t = strptime_HM_time_us [OF before(5)]
  from days_back_at_time [OF assms(2,3) t(2,3), of n] before t(1) show ?thesis
    by (simp add: reminder_datetime_def)
qed

lemma calculate_reminder_time_cases:
  assumes "spec_rule_of rm = Some rule" and "db timezone_str = Some tz"
    and "1 \<le> toordinal d" and "toordinal d \<le> MAXORDINAL"
  shows "if representable (spec_wall_clock d rule) \<and> representable (spec_ReminderInstant d rule tz)
         then \<exists>u. calculate_reminder_time db d rm timezone_str = Inr u \<and>
                  timestamp_us u = spec_ReminderInstant d rule tz
         else calculate_reminder_time db d rm timezone_str = Inl OverflowError"
proof (cases "representable (spec_wall_clock d rule)")
  case False
  with reminder_datetime_cases [OF assms(1,3,4)] assms(2) show ?thesis
    by (simp add: calculate_reminder_time_def)
next
  case True
  with reminder_datetime_cases [OF assms(1,3,4)] obtain w where
    w: "reminder_datetime d rm = Inr w" by auto
  from reminder_datetime_timestamp [OF w] assms(1) have
    ts: "timestamp_us w = spec_wall_clock d rule" by auto
  have c: "calculate_reminder_time db d rm timezone_str
             = datetime_sub w (tz (spec_wall_clock d rule) * 1000000)"
    by (simp add: calculate_reminder_time_def assms(2) w astimezone_utc_def localize_def ts)
  have v: "timestamp_us u = spec_ReminderInstant d rule tz"
    if "datetime_sub w (tz (spec_wall_clock d rule) * 1000000) = Inr u" for u
    using datetime_sub_timestamp [OF that] by (simp add: ts spec_ReminderInstant_def)
  from datetime_sub_cases [of w "tz (spec_wall_clock d rule) * 1000000"] True v
  show ?thesis
    by (auto simp: c ts spec_ReminderInstant_def)
qed

lemma timestamp_us_datetime_of_instant: "timestamp_us (datetime_of_instant x) = x"
proof -
  have "timestamp_us (datetime_of_instant x) = x div us_per_day * us_per_day + x mod us_per_day"
    unfolding datetime_of_instant_def
    by (simp add: timestamp_us_combine toordinal_fromordinal time_us_time_of_us)
  then show ?thesis by simp
qed

lemma datetime_sub_value:
  "datetime_sub dt delta = Inr u \<Longrightarrow> u = datetime_of_instant (timestamp_us dt - delta)"
  by (simp add: datetime_sub_def datetime_of_instant_def Let_def split: if_splits)

lemma calculate_reminder_time_value:
  assumes "calculate_reminder_time db d rm timezone_str = Inr u"
  shows "u = datetime_of_instant (timestamp_us u)"
proof -
  from assms obtain w delta where "datetime_sub w delta = Inr u"
    by (auto simp: calculate_reminder_time_def astimezone_utc_def
        split: option.splits sum.splits)
  from datetime_sub_value [OF this] datetime_sub_timestamp [OF this] show ?thesis by simp
qed

text \<open>
  C1, as amended. For every occurrence date, every reminder \<^verbatim>\<open>validate_reminder\<close>
  accepts and every known time zone, the reminder has a rule of the specification, and
  \<^verbatim>\<open>calculate_reminder_time\<close> returns the UTC datetime at the instant of the
  specification's mapping (local midnight minus \<open>n\<close> minutes or hours, 09:00 local
  \<open>n\<close> days before, \<open>hh:mm\<close> local on the day or \<open>d\<close> days before, each minus the
  zone's offset at that wall-clock reading) whenever that reading and that instant lie
  within the years 1 to 9999, and raises \<^verbatim>\<open>OverflowError\<close> otherwise.
\<close>

theorem reminder_instant:
  assumes "validate_reminder rm = Inr ()" and "db timezone_str = Some tz"
    and "1 \<le> toordinal d" and "toordinal d \<le> MAXORDINAL"
  shows "\<exists>rule. spec_rule_of rm = Some rule \<and>
           (if representable (spec_wall_clock d rule) \<and>
               representable (spec_ReminderInstant d rule tz)
            then calculate_reminder_time db d rm timezone_str
                   = Inr (datetime_of_instant (spec_ReminderInstant d rule tz))
            else calculate_reminder_time db d rm timezone_str = Inl OverflowError)"
proof -
  from validated_rule [OF assms(1)] obtain rule where r: "spec_rule_of rm = Some rule" by blast
  show ?thesis
  proof (cases "representable (spec_wall_clock d rule) \<and>
                representable (spec_ReminderInstant d rule tz)")
    case True
    with calculate_reminder_time_cases [where db = db and timezone_str = timezone_str, OF r assms(2,3,4)] obtain u where
      u: "calculate_reminder_time db d rm timezone_str = Inr u"
      and t: "timestamp_us u = spec_ReminderInstant d rule tz" by auto
    from calculate_reminder_time_value [OF u] t
    have "u = datetime_of_instant (spec_ReminderInstant d rule tz)" by simp
    with u r True show ?thesis by simp
  next
    case False
    with calculate_reminder_time_cases [where db = db and timezone_str = timezone_str, OF r assms(2,3,4)] r show ?thesis by auto
  qed
qed


text \<open>
  One day before 15 March 2025 in UTC is 14 March 2025 09:00:00 UTC; 18:00 one day
  before, in a zone two hours east of UTC, is 14 March 2025 16:00:00 UTC.
\<close>

theorem reminder_instant_witness:
  "validate_reminder days_before_1 = Inr () \<and>
   calculate_reminder_time example_tzdb date_2025_03_15 days_before_1 ''UTC'' = Inr tick_090000 \<and>
   validate_reminder time_before_1_1800 = Inr () \<and>
   calculate_reminder_time example_tzdb date_2025_03_15 time_before_1_1800 ''Etc/GMT-2''
     = Inr (combine \<lparr>year = 2025, month = 3, day = 14\<rparr> (mk_time 16 0))"
proof -
  have v: "validate_reminder days_before_1 = Inr ()" "validate_reminder time_before_1_1800 = Inr ()"
    by code_simp+
  have z: "example_tzdb ''UTC'' = Some (\<lambda>_. 0)" "example_tzdb ''Etc/GMT-2'' = Some (\<lambda>_. 7200)"
    by (simp_all add: example_tzdb_def)
  have o: "1 \<le> toordinal date_2025_03_15" "toordinal date_2025_03_15 \<le> MAXORDINAL"
    by code_simp+
  have r: "spec_rule_of days_before_1 = Some (DaysBefore 1)"
    "spec_rule_of time_before_1_1800 = Some (TimeBefore 1 18 0)"
    by code_simp+
  have rep: "representable (spec_wall_clock date_2025_03_15 (DaysBefore 1))"
    "representable (spec_ReminderInstant date_2025_03_15 (DaysBefore 1) (\<lambda>_. 0))"
    "representable (spec_wall_clock date_2025_03_15 (TimeBefore 1 18 0))"
    "representable (spec_ReminderInstant date_2025_03_15 (TimeBefore 1 18 0) (\<lambda>_. 7200))"
    by code_simp+
  have dt: "datetime_of_instant (spec_ReminderInstant date_2025_03_15 (DaysBefore 1) (\<lambda>_. 0))
              = tick_090000"
    "datetime_of_instant (spec_ReminderInstant date_2025_03_15 (TimeBefore 1 18 0) (\<lambda>_. 7200))
       = combine \<lparr>year = 2025, month = 3, day = 14\<rparr> (mk_time 16 0)"
    by code_simp+
  from reminder_instant [where db = example_tzdb and timezone_str = "''UTC''", OF v(1) z(1) o] r(1) rep(1,2) dt(1)
  have 1: "calculate_reminder_time example_tzdb date_2025_03_15 days_before_1 ''UTC''
             = Inr tick_090000" by auto
  from reminder_instant [where db = example_tzdb and timezone_str = "''Etc/GMT-2''", OF v(2) z(2) o] r(2) rep(3,4) dt(2)
  have 2: "calculate_reminder_time example_tzdb date_2025_03_15 time_before_1_1800 ''Etc/GMT-2''
             = Inr (combine \<lparr>year = 2025, month = 3, day = 14\<rparr> (mk_time 16 0))" by auto
  from v 1 2 show ?thesis by simp
qed

text \<open>
  C1 as stated covers every validated rule. \<^verbatim>\<open>days_before 1000000000\<close> is validated,
  and for it \<^verbatim>\<open>calculate_reminder_time\<close> returns no instant: a thousand million days are
  more than a \<^verbatim>\<open>timedelta\<close> holds.
\<close>

theorem reminder_instant_overflows:
  "validate_reminder days_before_billion = Inr () \<and>
   example_tzdb ''UTC'' \<noteq> None \<and>
   calculate_reminder_time example_tzdb date_2025_03_15 days_before_billion ''UTC''
     = Inl OverflowError"
proof -
  have "validate_reminder days_before_billion = Inr ()" by code_simp
  moreover have "example_tzdb ''UTC'' \<noteq> None" by (simp add: example_tzdb_def)
  moreover have "calculate_reminder_time example_tzdb date_2025_03_15 days_before_billion ''UTC''
     = Inl OverflowError" by code_simp
  ultimately show ?thesis by simp
qed



end
